theory Spec2Isabelle
  imports Complex_Main "HOL-Library.AList" "HOL-Library.Code_Target_Nat"
begin

section \<open>JavaScript values\<close>

text \<open>
  The application is a React view (\<^verbatim>\<open>src/frontend/src/App.js\<close>) with a form
  (\<^verbatim>\<open>InputForm.js\<close>), a result renderer (\<^verbatim>\<open>ResultsDisplay.js\<close>) and a heatmap
  wrapper (\<^verbatim>\<open>DamageHeatmap\<close>). The embedding follows the \<^verbatim>\<open>App\<close> of
  \<^verbatim>\<open>App.js\<close>, which stores the raw text of a field and coerces on submission. The
  state holds JavaScript values, so the embedding starts with the values the code can
  meet.

  A Number is a binary64 double: \<open>NaN\<close>, an infinity, negative zero, or a finite value,
  which is held as the rational number it is equal to (\<open>Finite 0\<close> is positive zero).
\<close>

datatype jsnum = NaN | PosInfinity | NegInfinity | NegZero | Finite rat

datatype jsval =
    JUndefined
  | JNull
  | JBoolean bool
  | JNumber jsnum
  | JString string
  | JObject "(string \<times> jsval) list"

datatype js_error = TypeError

definition isNaN :: "jsnum \<Rightarrow> bool" where
  "isNaN n = (n = NaN)"

text \<open>\<^verbatim>\<open>ToBoolean\<close>: what \<^verbatim>\<open>!v\<close>, \<^verbatim>\<open>v && w\<close> and \<^verbatim>\<open>v ? a : b\<close> test.\<close>

fun truthy :: "jsval \<Rightarrow> bool" where
  "truthy JUndefined = False"
| "truthy JNull = False"
| "truthy (JBoolean b) = b"
| "truthy (JNumber n) = (n \<noteq> NaN \<and> n \<noteq> Finite 0 \<and> n \<noteq> NegZero)"
| "truthy (JString s) = (s \<noteq> [])"
| "truthy (JObject ps) = True"

section \<open>Digits\<close>

text \<open>Strings are sequences of 8-bit characters here.\<close>

definition is_digit :: "char \<Rightarrow> bool" where
  "is_digit c = (c \<in> set ''0123456789'')"

definition digit_val :: "char \<Rightarrow> nat" where
  "digit_val c = of_char c - 48"

definition digits_val :: "string \<Rightarrow> nat" where
  "digits_val ds = foldl (\<lambda>n c. 10 * n + digit_val c) 0 ds"

definition all_digits :: "string \<Rightarrow> bool" where
  "all_digits ds = list_all is_digit ds"

section \<open>Objects\<close>

text \<open>
  An object is the list of its own enumerable properties in the order in which
  \<^verbatim>\<open>for ... in\<close>, \<^verbatim>\<open>Object.keys\<close> and the object spread visit them: first the names
  that are array indices, in ascending numeric order, then the other names in the order
  of their creation. An array index is the decimal string, with no leading zero, of an
  integer from 0 to \<open>2\<^sup>3\<^sup>2 - 2\<close>.
\<close>

type_synonym object = "(string \<times> jsval) list"

definition is_array_index :: "string \<Rightarrow> bool" where
  "is_array_index s =
     (case s of
        [] \<Rightarrow> False
      | c # cs \<Rightarrow> all_digits s \<and> (c \<noteq> CHR ''0'' \<or> cs = []) \<and> digits_val s < 4294967295)"

text \<open>
  Reading a property: \<^verbatim>\<open>obj[key]\<close> of an object gives \<^verbatim>\<open>undefined\<close> for a name
  it does not have.
\<close>

definition get_own :: "object \<Rightarrow> string \<Rightarrow> jsval" where
  "get_own obj key = (case map_of obj key of None \<Rightarrow> JUndefined | Some v \<Rightarrow> v)"

text \<open>
  \<^verbatim>\<open>v.name\<close> on any value: \<^verbatim>\<open>undefined\<close> and \<^verbatim>\<open>null\<close> throw a TypeError;
  a primitive has none of the names the application reads (\<^verbatim>\<open>error\<close>,
  \<^verbatim>\<open>optimal_x\<close>, ...), nor has \<^verbatim>\<open>Object.prototype\<close>.
\<close>

fun member :: "jsval \<Rightarrow> string \<Rightarrow> js_error + jsval" where
  "member JUndefined name = Inl TypeError"
| "member JNull name = Inl TypeError"
| "member (JObject ps) name = Inr (get_own ps name)"
| "member v name = Inr JUndefined"

text \<open>
  A name the object does not have yet takes its place in that order: an array index
  goes before the first name that is no array index or is a larger one, any other name
  goes last.
\<close>

fun add_property :: "object \<Rightarrow> string \<Rightarrow> jsval \<Rightarrow> object" where
  "add_property [] key v = [(key, v)]"
| "add_property (p # ps) key v =
     (if is_array_index key \<and> (\<not> is_array_index (fst p) \<or> digits_val key < digits_val (fst p))
      then (key, v) # p # ps
      else p # add_property ps key v)"

text \<open>
  Defining a property, as the object literal \<^verbatim>\<open>{...prev, [name]: value}\<close> does with its
  computed name: a name the object has keeps its place and takes the new value.
\<close>

definition define_property :: "object \<Rightarrow> string \<Rightarrow> jsval \<Rightarrow> object" where
  "define_property obj key v =
     (if key \<in> set (map fst obj) then AList.update key v obj else add_property obj key v)"

text \<open>
  The assignment \<^verbatim>\<open>obj[key] = v\<close> on a plain object does the same, except for the name
  \<^verbatim>\<open>__proto__\<close>: that one reaches the setter inherited from \<^verbatim>\<open>Object.prototype\<close>,
  which ignores a value that is neither an object nor \<^verbatim>\<open>null\<close> and creates no property.
  The values assigned by the application are Numbers.
\<close>

definition assign :: "object \<Rightarrow> string \<Rightarrow> jsnum \<Rightarrow> object" where
  "assign obj key n = (if key = ''__proto__'' then obj else define_property obj key (JNumber n))"

section \<open>Rounding to a double\<close>

text \<open>
  The Number value of a mathematical value: the nearest double, the one with an even
  significand when two are equally near, an infinity from \<open>2\<^sup>1\<^sup>0\<^sup>2\<^sup>4 - 2\<^sup>9\<^sup>7\<^sup>0\<close> on, and a
  zero below half of the smallest double \<open>2\<^sup>-\<^sup>1\<^sup>0\<^sup>7\<^sup>4\<close>. The doubles near \<open>q\<close> are the
  multiples of \<open>2\<^sup>e\<close>, where \<open>e\<close> is 52 below the binary exponent of \<open>q\<close> and at least
  -1074. (Current engines round the exact value of a numeric string in this way; the
  language definition also allows an approximation beyond twenty significant digits.)
\<close>

fun bit_length :: "nat \<Rightarrow> nat" where
  "bit_length n = (if n = 0 then 0 else Suc (bit_length (n div 2)))"

text \<open>The binary exponent of a positive rational: the largest \<open>k\<close> with \<open>2\<^sup>k \<le> q\<close>.\<close>

definition ilog2 :: "rat \<Rightarrow> int" where
  "ilog2 q = (if 1 \<le> q then int (bit_length (nat \<lfloor>q\<rfloor>)) - 1
              else - int (bit_length (nat (\<lceil>1 / q\<rceil> - 1))))"

definition round_half_even :: "rat \<Rightarrow> int" where
  "round_half_even x =
     (let f = \<lfloor>x\<rfloor>; r = x - of_int f
      in if r < 1 / 2 then f else if 1 / 2 < r then f + 1 else if even f then f else f + 1)"

definition pow2 :: "int \<Rightarrow> rat" where
  "pow2 e = (if 0 \<le> e then 2 ^ nat e else 1 / 2 ^ nat (- e))"

text \<open>\<open>to_double neg q\<close> is the Number for the sign \<open>neg\<close> and the magnitude \<open>q\<close>.\<close>

definition to_double :: "bool \<Rightarrow> rat \<Rightarrow> jsnum" where
  "to_double neg q =
     (if q \<le> 0 then (if neg then NegZero else Finite 0)
      else let e = max (ilog2 q - 52) (- 1074);
               r = of_int (round_half_even (q / pow2 e)) * pow2 e
           in if 2 ^ 1024 \<le> r then (if neg then NegInfinity else PosInfinity)
              else if r = 0 then (if neg then NegZero else Finite 0)
              else Finite (if neg then - r else r))"

section \<open>\<^verbatim>\<open>parseFloat\<close>\<close>

text \<open>
  \<^verbatim>\<open>parseFloat(string)\<close> converts its argument to a string, drops leading white space,
  and reads the longest prefix that is a \<^verbatim>\<open>StrDecimalLiteral\<close>; with no such prefix
  the result is \<open>NaN\<close>. The result is the Number value of the prefix, negative zero
  when the prefix has a minus sign and its value rounds to zero.
\<close>

definition is_ws :: "char \<Rightarrow> bool" where
  "is_ws c = (c \<in> {CHR 0x09, CHR 0x0A, CHR 0x0B, CHR 0x0C, CHR 0x0D, CHR 0x20, CHR 0xA0})"

fun read_sign :: "string \<Rightarrow> bool \<times> string" where
  "read_sign [] = (False, [])"
| "read_sign (c # cs) =
     (if c = CHR ''-'' then (True, cs) else if c = CHR ''+'' then (False, cs) else (False, c # cs))"

text \<open>An exponent part counts only when at least one digit follows the marker and sign.\<close>

fun read_exponent :: "string \<Rightarrow> int" where
  "read_exponent [] = 0"
| "read_exponent (c # cs) =
     (if c = CHR ''e'' \<or> c = CHR ''E'' then
        (case read_sign cs of (neg, r) \<Rightarrow>
           let ed = takeWhile is_digit r in
           if ed = [] then 0 else if neg then - int (digits_val ed) else int (digits_val ed))
      else 0)"

definition scale10 :: "rat \<Rightarrow> int \<Rightarrow> rat" where
  "scale10 m e = (if 0 \<le> e then m * 10 ^ nat e else m / 10 ^ nat (- e))"

definition parse_decimal :: "bool \<Rightarrow> string \<Rightarrow> jsnum" where
  "parse_decimal neg r =
     (let ip = takeWhile is_digit r;
          r1 = dropWhile is_digit r;
          fp = (case r1 of [] \<Rightarrow> [] | c # cs \<Rightarrow> if c = CHR ''.'' then takeWhile is_digit cs else []);
          r2 = (case r1 of [] \<Rightarrow> [] | c # cs \<Rightarrow> if c = CHR ''.'' then dropWhile is_digit cs else r1)
      in if ip = [] \<and> fp = [] then NaN
         else to_double neg
                (scale10 (of_nat (digits_val (ip @ fp))) (read_exponent r2 - int (length fp))))"

definition parseFloat_string :: "string \<Rightarrow> jsnum" where
  "parseFloat_string s =
     (case read_sign (dropWhile is_ws s) of (neg, r) \<Rightarrow>
        if take 8 r = ''Infinity'' then (if neg then NegInfinity else PosInfinity)
        else parse_decimal neg r)"

text \<open>
  The argument is converted with \<^verbatim>\<open>ToString\<close> first. The string of a Number is the
  shortest decimal that reads back as the same Number (\<^verbatim>\<open>NaN\<close>, \<^verbatim>\<open>Infinity\<close>,
  \<^verbatim>\<open>-Infinity\<close> for the others, and \<^verbatim>\<open>0\<close> for both zeros), so \<^verbatim>\<open>parseFloat\<close> of
  a Number is that Number, and positive zero for negative zero. A plain object prints
  as \<^verbatim>\<open>[object Object]\<close>.
\<close>

fun parseFloat :: "jsval \<Rightarrow> jsnum" where
  "parseFloat (JNumber NegZero) = Finite 0"
| "parseFloat (JNumber n) = n"
| "parseFloat (JString s) = parseFloat_string s"
| "parseFloat JUndefined = parseFloat_string ''undefined''"
| "parseFloat JNull = parseFloat_string ''null''"
| "parseFloat (JBoolean b) = parseFloat_string (if b then ''true'' else ''false'')"
| "parseFloat (JObject ps) = parseFloat_string ''[object Object]''"

section \<open>The view state and the input collector\<close>

text \<open>
  The three \<^verbatim>\<open>useState\<close> cells of \<^verbatim>\<open>App\<close>, with their initial values. A call of a
  state setter is an assignment to its cell, at the place of the call.
\<close>

record view =
  inputs :: object
  results :: jsval
  error :: jsval

definition initial_inputs :: object where
  "initial_inputs =
     [(''K'', JNumber (Finite 1000)), (''I'', JNumber (Finite 10)), (''F'', JNumber (Finite 500)),
      (''S'', JNumber (Finite 50)), (''CR0'', JNumber (Finite 5)), (''CD0'', JNumber (Finite 50))]"

definition initial_view :: view where
  "initial_view = \<lparr>inputs = initial_inputs, results = JNull, error = JNull\<rparr>"

definition recognized_keys :: "string list" where
  "recognized_keys = [''K'', ''I'', ''F'', ''S'', ''CR0'', ''CD0'']"

text \<open>
  \<^verbatim>\<open>handleInputChange\<close> takes \<^verbatim>\<open>name\<close> and \<^verbatim>\<open>value\<close> from the event target (the
  value of a DOM input is a string) and replaces the inputs by
  \<^verbatim>\<open>{...prev, [name]: value}\<close>.
\<close>

definition handleInputChange :: "view \<Rightarrow> string \<Rightarrow> string \<Rightarrow> view" where
  "handleInputChange s name val = s\<lparr>inputs := define_property (inputs s) name (JString val)\<rparr>"

section \<open>The submission adapter\<close>

text \<open>
  The loop of \<^verbatim>\<open>handleSubmit\<close> over the names of \<^verbatim>\<open>inputs\<close>:
  \<^verbatim>\<open>dataToSend[key] = isNaN(parsedValue) ? 0 : parsedValue\<close>. The payload of a
  submission is the object \<^verbatim>\<open>dataToSend\<close> handed to \<^verbatim>\<open>axios.post\<close>; writing it
  out as JSON text is the library's part.
\<close>

definition coerce :: "jsval \<Rightarrow> jsnum" where
  "coerce v = (let parsedValue = parseFloat v in if isNaN parsedValue then Finite 0 else parsedValue)"

fun for_in :: "string list \<Rightarrow> object \<Rightarrow> object \<Rightarrow> object" where
  "for_in [] inps dataToSend = dataToSend"
| "for_in (key # keys) inps dataToSend =
     for_in keys inps (assign dataToSend key (coerce (get_own inps key)))"

definition dataToSend :: "object \<Rightarrow> object" where
  "dataToSend inps = for_in (map fst inps) inps []"

text \<open>
  What the network gives back, and what \<^verbatim>\<open>axios.post\<close> makes of it: the promise is
  fulfilled for a status from 200 to 299, and rejected otherwise with an error that
  carries the response; with no response at all the error carries none. The error's
  \<^verbatim>\<open>message\<close> is only written to the console, which is not part of the state.
\<close>

datatype response = Response nat jsval

datatype reply = NoReply | Reply nat jsval

datatype axios_error = AxiosError "response option"

datatype outcome = Fulfilled response | Rejected axios_error

fun axios_post :: "reply \<Rightarrow> outcome" where
  "axios_post NoReply = Rejected (AxiosError None)"
| "axios_post (Reply st body) =
     (if 200 \<le> st \<and> st < 300 then Fulfilled (Response st body)
      else Rejected (AxiosError (Some (Response st body))))"

text \<open>
  The first half of \<^verbatim>\<open>handleSubmit\<close>, up to the \<^verbatim>\<open>await\<close>: both cells are cleared
  and the request body is built. The result is the new view and the body posted.
\<close>

definition handleSubmit_begin :: "view \<Rightarrow> view \<times> object" where
  "handleSubmit_begin s = (s\<lparr>error := JNull, results := JNull\<rparr>, dataToSend (inputs s))"

text \<open>
  The argument of \<^verbatim>\<open>setError\<close> in the \<^verbatim>\<open>catch\<close> block:
  \<^verbatim>\<open>err.response ? err.response.data.error : "An unexpected error occurred."\<close>.
  A response object is truthy.
\<close>

definition fallback_message :: string where
  "fallback_message = ''An unexpected error occurred.''"

fun catch_value :: "axios_error \<Rightarrow> js_error + jsval" where
  "catch_value (AxiosError None) = Inr (JString fallback_message)"
| "catch_value (AxiosError (Some (Response st body))) = member body ''error''"

text \<open>
  The second half, when the promise settles. A TypeError thrown inside the \<^verbatim>\<open>catch\<close>
  block leaves the function before \<^verbatim>\<open>setError\<close> is called.
\<close>

fun handleSubmit_settle :: "view \<Rightarrow> outcome \<Rightarrow> js_error + view" where
  "handleSubmit_settle s (Fulfilled (Response st body)) = Inr (s\<lparr>results := body\<rparr>)"
| "handleSubmit_settle s (Rejected err) =
     (case catch_value err of Inl e \<Rightarrow> Inl e | Inr v \<Rightarrow> Inr (s\<lparr>error := v\<rparr>))"

text \<open>The view after the handler has run or thrown: a throw changes no cell.\<close>

definition settled :: "view \<Rightarrow> outcome \<Rightarrow> view" where
  "settled s out = (case handleSubmit_settle s out of Inl e \<Rightarrow> s | Inr s' \<Rightarrow> s')"

text \<open>One whole submission with no other event in between.\<close>

definition handleSubmit :: "view \<Rightarrow> reply \<Rightarrow> view" where
  "handleSubmit s rep = settled (fst (handleSubmit_begin s)) (axios_post rep)"

section \<open>Rendering\<close>

text \<open>
  What a component returns: nothing (\<^verbatim>\<open>null\<close>), literal text, a JavaScript value
  placed as a child (\<^verbatim>\<open>{v}\<close>), an element with its class name and children, or an
  \<^verbatim>\<open>input\<close> with its name and value. React shows a Number or a non-empty string
  child as text and shows nothing for \<^verbatim>\<open>undefined\<close>, \<^verbatim>\<open>null\<close>, a boolean or the
  empty string. (React refuses an object as a child; here it stays a child.)
\<close>

datatype node =
    Nothing
  | Text string
  | Child jsval
  | Element string string "node list"
  | Input string jsval

fun shows_nothing :: "node \<Rightarrow> bool" where
  "shows_nothing Nothing = True"
| "shows_nothing (Child JUndefined) = True"
| "shows_nothing (Child JNull) = True"
| "shows_nothing (Child (JBoolean b)) = True"
| "shows_nothing (Child (JString s)) = (s = [])"
| "shows_nothing n = False"

definition InputForm :: "object \<Rightarrow> node" where
  "InputForm inps =
     Element ''form'' []
       (map (\<lambda>key. Element ''div'' []
                [Element ''label'' [] [Child (JString key), Text '':''],
                 Input key (get_own inps key)])
            (map fst inps)
        @ [Element ''button'' [] [Text ''Calculate'']])"

fun input_names :: "node \<Rightarrow> string list" where
  "input_names (Input name v) = [name]"
| "input_names (Element tag cls children) = concat (map input_names children)"
| "input_names n = []"

definition ResultsDisplay :: "jsval \<Rightarrow> js_error + node" where
  "ResultsDisplay res =
     (if \<not> truthy res then Inr Nothing
      else case (member res ''optimal_x'', member res ''optimal_y'',
                 member res ''optimal_z'', member res ''max_damage'') of
          (Inr vx, Inr vy, Inr vz, Inr vd) \<Rightarrow>
            Inr (Element ''div'' []
                   [Element ''h2'' [] [Text ''Calculation Results''],
                    Element ''p'' [] [Text ''Optimal X: '', Child vx],
                    Element ''p'' [] [Text ''Optimal Y: '', Child vy],
                    Element ''p'' [] [Text ''Optimal Z: '', Child vz],
                    Element ''p'' [] [Text ''Max Damage: '', Child vd]])
        | _ \<Rightarrow> Inl TypeError)"

text \<open>
  The two conditional children of \<^verbatim>\<open>App\<close>: \<^verbatim>\<open>error && <div ...>\<close> and
  \<^verbatim>\<open>results && <ResultsDisplay ...>\<close>. A falsy left operand is the child itself.
\<close>

definition error_slot :: "view \<Rightarrow> node" where
  "error_slot s =
     (if truthy (error s) then Element ''div'' ''error-message'' [Child (error s)]
      else Child (error s))"

definition results_slot :: "view \<Rightarrow> js_error + node" where
  "results_slot s =
     (if truthy (results s) then ResultsDisplay (results s) else Inr (Child (results s)))"

definition App :: "view \<Rightarrow> js_error + node" where
  "App s =
     (case results_slot s of
        Inl e \<Rightarrow> Inl e
      | Inr r \<Rightarrow>
          Inr (Element ''div'' ''App''
                 [Element ''h1'' [] [Text ''Optimal Build Calculator''],
                  InputForm (inputs s),
                  error_slot s,
                  r]))"

section \<open>Runs of the view\<close>

text \<open>
  The view together with the request in flight, if any. A keystroke may come at any
  time; a submission starts only when none is in flight (submissions that do not
  overlap); a reply settles the one in flight.
\<close>

datatype event = Change string string | Submit | Settle reply

fun step :: "view \<times> object option \<Rightarrow> event \<Rightarrow> (view \<times> object option) option" where
  "step (s, p) (Change name val) = Some (handleInputChange s name val, p)"
| "step (s, None) Submit = (case handleSubmit_begin s of (s', body) \<Rightarrow> Some (s', Some body))"
| "step (s, Some body) Submit = None"
| "step (s, Some body) (Settle rep) = Some (settled s (axios_post rep), None)"
| "step (s, None) (Settle rep) = None"

fun run :: "view \<times> object option \<Rightarrow> event list \<Rightarrow> (view \<times> object option) option" where
  "run c [] = Some c"
| "run c (e # es) = (case step c e of None \<Rightarrow> None | Some c' \<Rightarrow> run c' es)"

text \<open>
  The property kept by every step of such a run: one of the two cells is \<^verbatim>\<open>null\<close>,
  and both are while a request is in flight.
\<close>

definition exclusive :: "view \<times> object option \<Rightarrow> bool" where
  "exclusive c =
     (case c of (s, p) \<Rightarrow>
        (results s = JNull \<or> error s = JNull) \<and>
        (p \<noteq> None \<longrightarrow> results s = JNull \<and> error s = JNull))"

text \<open>
  Keystrokes that come from the form: \<^verbatim>\<open>InputForm\<close> renders one input per name of
  the current inputs, so an event's name is one of those. Only keystrokes write the
  inputs, so these sequences reach every input state of the view.
\<close>

fun form_edits :: "view \<Rightarrow> (string \<times> string) list \<Rightarrow> view option" where
  "form_edits s [] = Some s"
| "form_edits s ((name, val) # es) =
     (if name \<in> set (input_names (InputForm (inputs s)))
      then form_edits (handleInputChange s name val) es
      else None)"

section \<open>The heatmap renderer\<close>

text \<open>
  One sample of the dataset, with its fields \<^verbatim>\<open>x\<close>, \<^verbatim>\<open>y\<close>, \<^verbatim>\<open>z\<close> and
  \<^verbatim>\<open>damage\<close>; the single trace handed to the plotting library, whose \<^verbatim>\<open>x\<close> and
  \<^verbatim>\<open>y\<close> are the plot axes and whose \<^verbatim>\<open>z\<close> is the colour-mapped value; and the
  properties of the \<^verbatim>\<open>Plot\<close> element.
\<close>

record sample =
  sample_x :: jsval
  sample_y :: jsval
  sample_z :: jsval
  sample_damage :: jsval

record trace =
  trace_x :: "jsval list"
  trace_y :: "jsval list"
  trace_z :: "jsval list"
  trace_type :: string
  colorscale :: string
  colorbar_title :: string
  hovertemplate :: string
  customdata :: "jsval list list"

record axis =
  axis_title :: string
  automargin :: bool

record layout =
  layout_title :: string
  xaxis :: axis
  yaxis :: axis

record plot =
  plot_data :: "trace list"
  plot_layout :: layout
  style_width :: string
  style_height :: string
  responsive :: bool

text \<open>
  \<^verbatim>\<open>DamageHeatmap({ data })\<close>: the dataset is absent (\<open>None\<close>) or an array; the
  component returns \<^verbatim>\<open>null\<close> (\<open>None\<close>) or the \<^verbatim>\<open>Plot\<close> element.
\<close>

definition DamageHeatmap :: "sample list option \<Rightarrow> plot option" where
  "DamageHeatmap dat =
     (case dat of
        None \<Rightarrow> None
      | Some ds \<Rightarrow>
          if length ds = 0 then None
          else
            let x_coords = map sample_x ds;
                y_coords = map sample_y ds;
                damage_coords = map sample_damage ds;
                customData = map (\<lambda>d. [sample_z d, sample_damage d]) ds;
                plotData =
                  [\<lparr>trace_x = x_coords, trace_y = y_coords, trace_z = damage_coords,
                    trace_type = ''heatmap'', colorscale = ''Jet'', colorbar_title = ''Damage'',
                    hovertemplate =
                      ''Attack Points (x): %{x}<br>'' @
                      ''Crit Rate Points (y): %{y}<br>'' @
                      ''Crit Damage Points (z): %{customdata[0]}<br>'' @
                      ''Damage: %{customdata[1]:.2f}<br>'' @
                      ''<extra></extra>'',
                    customdata = customData\<rparr>];
                plotLayout =
                  \<lparr>layout_title = ''Damage Heatmap'',
                   xaxis = \<lparr>axis_title = ''Attack Points (x)'', automargin = True\<rparr>,
                   yaxis = \<lparr>axis_title = ''Crit Rate Points (y)'', automargin = True\<rparr>\<rparr>
            in Some \<lparr>plot_data = plotData, plot_layout = plotLayout,
                     style_width = ''100%'', style_height = ''500%'', responsive = True\<rparr>)"

section \<open>The grammar of numeric strings\<close>

text \<open>
  The grammar \<^verbatim>\<open>StrDecimalLiteral\<close> that \<^verbatim>\<open>parseFloat\<close> reads, as data: an optional
  sign, then \<^verbatim>\<open>Infinity\<close> or one of the three digit forms
  \<^verbatim>\<open>digits . digits?\<close>, \<^verbatim>\<open>. digits\<close>, \<^verbatim>\<open>digits\<close>, each with an optional
  exponent part. A literal is printed by \<open>render\<close>; \<open>MV\<close> is the Number the language
  definition gives it: the mathematical value of its digits and exponent, rounded to a
  double, with the sign of the literal.
\<close>

datatype sign = NoSign | Plus | Minus

datatype mantissa = IntDot string string | DotFrac string | IntOnly string

datatype exponent = NoExp | Exp char sign string

datatype literal = InfinityLit sign | Decimal sign mantissa exponent

fun render_sign :: "sign \<Rightarrow> string" where
  "render_sign NoSign = []"
| "render_sign Plus = ''+''"
| "render_sign Minus = ''-''"

fun render_mantissa :: "mantissa \<Rightarrow> string" where
  "render_mantissa (IntDot ip fp) = ip @ ''.'' @ fp"
| "render_mantissa (DotFrac fp) = ''.'' @ fp"
| "render_mantissa (IntOnly ip) = ip"

fun render_exponent :: "exponent \<Rightarrow> string" where
  "render_exponent NoExp = []"
| "render_exponent (Exp c sg ds) = c # render_sign sg @ ds"

fun render :: "literal \<Rightarrow> string" where
  "render (InfinityLit sg) = render_sign sg @ ''Infinity''"
| "render (Decimal sg m e) = render_sign sg @ render_mantissa m @ render_exponent e"

fun valid_mantissa :: "mantissa \<Rightarrow> bool" where
  "valid_mantissa (IntDot ip fp) = (ip \<noteq> [] \<and> all_digits ip \<and> all_digits fp)"
| "valid_mantissa (DotFrac fp) = (fp \<noteq> [] \<and> all_digits fp)"
| "valid_mantissa (IntOnly ip) = (ip \<noteq> [] \<and> all_digits ip)"

fun valid_exponent :: "exponent \<Rightarrow> bool" where
  "valid_exponent NoExp = True"
| "valid_exponent (Exp c sg ds) = ((c = CHR ''e'' \<or> c = CHR ''E'') \<and> ds \<noteq> [] \<and> all_digits ds)"

fun valid_literal :: "literal \<Rightarrow> bool" where
  "valid_literal (InfinityLit sg) = True"
| "valid_literal (Decimal sg m e) = (valid_mantissa m \<and> valid_exponent e)"

fun MV_mantissa :: "mantissa \<Rightarrow> rat" where
  "MV_mantissa (IntDot ip fp) = of_nat (digits_val ip) + of_nat (digits_val fp) / 10 ^ length fp"
| "MV_mantissa (DotFrac fp) = of_nat (digits_val fp) / 10 ^ length fp"
| "MV_mantissa (IntOnly ip) = of_nat (digits_val ip)"

fun MV_exponent :: "exponent \<Rightarrow> int" where
  "MV_exponent NoExp = 0"
| "MV_exponent (Exp c Minus ds) = - int (digits_val ds)"
| "MV_exponent (Exp c sg ds) = int (digits_val ds)"

fun MV :: "literal \<Rightarrow> jsnum" where
  "MV (InfinityLit Minus) = NegInfinity"
| "MV (InfinityLit sg) = PosInfinity"
| "MV (Decimal sg m e) = to_double (sg = Minus) (scale10 (MV_mantissa m) (MV_exponent e))"

text \<open>
  When the characters after a literal make a longer literal: a further digit always does;
  after a literal with no exponent, an exponent part does, and so does a dot when the
  literal has none. Nothing continues \<^verbatim>\<open>Infinity\<close>. A string \<open>render l @ t\<close> with
  \<open>\<not> continues l t\<close> is a numeric prefix followed by characters that are not part of
  the number.
\<close>

fun starts_with_digit :: "string \<Rightarrow> bool" where
  "starts_with_digit [] = False"
| "starts_with_digit (c # cs) = is_digit c"

fun exponent_follows :: "string \<Rightarrow> bool" where
  "exponent_follows [] = False"
| "exponent_follows (c # cs) =
     ((c = CHR ''e'' \<or> c = CHR ''E'') \<and>
      (case cs of
         [] \<Rightarrow> False
       | d # ds \<Rightarrow> if d = CHR ''+'' \<or> d = CHR ''-'' then starts_with_digit ds else is_digit d))"

fun continues :: "literal \<Rightarrow> string \<Rightarrow> bool" where
  "continues (InfinityLit sg) t = False"
| "continues (Decimal sg m (Exp c es ds)) t = starts_with_digit t"
| "continues (Decimal sg (IntOnly ip) NoExp) t =
     (starts_with_digit t \<or> exponent_follows t \<or> (case t of [] \<Rightarrow> False | c # cs \<Rightarrow> c = CHR ''.''))"
| "continues (Decimal sg m NoExp) t = (starts_with_digit t \<or> exponent_follows t)"

section \<open>Properties of objects and of the request body\<close>

lemma get_own_map_of: "map_of obj k = Some v \<Longrightarrow> get_own obj k = v"
  by (simp add: get_own_def)

lemma map_of_in_keys: "map_of obj k = Some v \<Longrightarrow> k \<in> set (map fst obj)"
  by (metis map_of_eq_None_iff option.distinct(1) set_map)

lemma map_of_add_property:
  "k \<notin> fst ` set obj \<Longrightarrow> map_of (add_property obj k v) = (map_of obj)(k \<mapsto> v)"
proof (induction obj)
  case Nil
  then show ?case by simp
next
  case (Cons p ps)
  then have "fst p \<noteq> k" and ih: "map_of (add_property ps k v) = (map_of ps)(k \<mapsto> v)"
    by auto
  then show ?case
    by (cases p) (auto simp: fun_upd_twist)
qed

lemma map_of_define_property:
  "map_of (define_property obj k v) = (map_of obj)(k \<mapsto> v)"
  by (simp add: define_property_def update_conv' map_of_add_property)

lemma add_property_last:
  "\<not> is_array_index k \<Longrightarrow> add_property obj k v = obj @ [(k, v)]"
  by (induction obj) auto

lemma keys_add_property:
  "set (map fst (add_property obj k v)) = insert k (set (map fst obj))"
  by (induction obj) auto

lemma distinct_add_property:
  "distinct (map fst obj) \<Longrightarrow> k \<notin> set (map fst obj) \<Longrightarrow>
   distinct (map fst (add_property obj k v))"
proof (induction obj)
  case Nil
  then show ?case by simp
next
  case (Cons p ps)
  then show ?case
    using keys_add_property [of ps k v] by auto
qed

lemma coerce_parsed: "coerce v = (if isNaN (parseFloat v) then Finite 0 else parseFloat v)"
  by (simp add: coerce_def)

text \<open>A field of the body, for any list of names the loop runs over.\<close>

lemma map_of_for_in:
  "map_of (for_in ks inps d) k =
     (if k \<in> set ks \<and> k \<noteq> ''__proto__'' then Some (JNumber (coerce (get_own inps k)))
      else map_of d k)"
  by (induction ks arbitrary: d) (auto simp: assign_def map_of_define_property)

lemma map_of_dataToSend:
  "map_of (dataToSend inps) k =
     (if k \<in> set (map fst inps) \<and> k \<noteq> ''__proto__''
      then Some (JNumber (coerce (get_own inps k))) else None)"
  by (simp add: dataToSend_def map_of_for_in)

text \<open>
  The whole body, when the names are distinct, as those of an object are, and none is an
  array index.
\<close>

lemma for_in_fresh:
  "distinct ks \<Longrightarrow> ''__proto__'' \<notin> set ks \<Longrightarrow> \<forall>k \<in> set ks. \<not> is_array_index k \<Longrightarrow>
   set ks \<inter> fst ` set d = {} \<Longrightarrow>
   for_in ks inps d = d @ map (\<lambda>k. (k, JNumber (coerce (get_own inps k)))) ks"
proof (induction ks arbitrary: d)
  case Nil
  then show ?case by simp
next
  case (Cons key ks)
  let ?d = "d @ [(key, JNumber (coerce (get_own inps key)))]"
  from Cons.prems have "key \<noteq> ''__proto__''" "key \<notin> fst ` set d" "\<not> is_array_index key"
    by auto
  then have "assign d key (coerce (get_own inps key)) = ?d"
    by (simp add: assign_def define_property_def add_property_last)
  moreover from Cons.prems
  have "for_in ks inps ?d = ?d @ map (\<lambda>k. (k, JNumber (coerce (get_own inps k)))) ks"
    by (intro Cons.IH) auto
  ultimately show ?case by simp
qed

lemma dataToSend_entries:
  assumes "distinct (map fst inps)" and "''__proto__'' \<notin> set (map fst inps)"
      and "\<forall>k \<in> set (map fst inps). \<not> is_array_index k"
  shows "dataToSend inps = map (\<lambda>(k, v). (k, JNumber (coerce v))) inps"
proof -
  have "for_in (map fst inps) inps [] =
          map (\<lambda>k. (k, JNumber (coerce (get_own inps k)))) (map fst inps)"
    using assms for_in_fresh [of "map fst inps" "[]" inps] by simp
  moreover have "get_own inps k = v" if "(k, v) \<in> set inps" for k v
    using that assms(1) by (simp add: get_own_def)
  ultimately show ?thesis
    by (auto simp: dataToSend_def)
qed

lemma keys_dataToSend:
  "distinct (map fst inps) \<Longrightarrow> ''__proto__'' \<notin> set (map fst inps) \<Longrightarrow>
   \<forall>k \<in> set (map fst inps). \<not> is_array_index k \<Longrightarrow>
   map fst (dataToSend inps) = map fst inps"
  by (simp add: dataToSend_entries comp_def case_prod_unfold)

lemma keys_handleInputChange:
  "name \<in> set (map fst (inputs s)) \<Longrightarrow>
   map fst (inputs (handleInputChange s name val)) = map fst (inputs s)"
  by (simp add: handleInputChange_def define_property_def update_keys)

lemma keys_handleInputChange_new:
  assumes "name \<notin> set (map fst (inputs s))"
  shows "set (map fst (inputs (handleInputChange s name val))) = insert name (set (map fst (inputs s)))"
    and "distinct (map fst (inputs s)) \<Longrightarrow> distinct (map fst (inputs (handleInputChange s name val)))"
    and "\<not> is_array_index name \<Longrightarrow>
         map fst (inputs (handleInputChange s name val)) = map fst (inputs s) @ [name]"
  using assms keys_add_property [of "inputs s" name "JString val"]
    distinct_add_property [of "inputs s" name "JString val"]
  by (simp_all add: handleInputChange_def define_property_def add_property_last)

lemma keys_initial: "map fst (inputs initial_view) = recognized_keys"
  by (simp add: initial_view_def initial_inputs_def recognized_keys_def)

section \<open>Properties of the rounding\<close>

declare bit_length.simps [simp del]

lemma bit_length_bounds:
  "0 < n \<Longrightarrow> 2 ^ (bit_length n - 1) \<le> n \<and> n < 2 ^ bit_length n"
proof (induction n rule: bit_length.induct)
  case (1 n)
  show ?case
  proof (cases "n div 2 = 0")
    case True
    with "1.prems" have "n = 1" by (simp add: div_eq_0_iff)
    then show ?thesis by (simp add: bit_length.simps [of "Suc 0"] bit_length.simps [of 0])
  next
    case False
    with "1.prems" "1.IH" have ih: "2 ^ (bit_length (n div 2) - 1) \<le> n div 2"
        "n div 2 < 2 ^ bit_length (n div 2)"
      by auto
    from False have pos: "0 < bit_length (n div 2)"
      by (simp add: bit_length.simps [of "n div 2"])
    have b: "bit_length n = Suc (bit_length (n div 2))"
      using "1.prems" by (simp add: bit_length.simps [of n])
    from pos obtain c where c: "bit_length (n div 2) = Suc c"
      by (cases "bit_length (n div 2)") auto
    from ih c have "2 ^ c \<le> n div 2" "n div 2 < 2 * 2 ^ c" by auto
    then have "2 * 2 ^ c \<le> n" "n < 2 * (2 * 2 ^ c)" by linarith+
    with b c show ?thesis by simp
  qed
qed

lemma bit_length_rat:
  assumes "0 < n"
  shows "(2::rat) ^ (bit_length n - 1) \<le> of_nat n" and "(of_nat n :: rat) + 1 \<le> 2 ^ bit_length n"
    and "0 < bit_length n"
proof -
  note b = bit_length_bounds [OF assms]
  from b have "(of_nat (2 ^ (bit_length n - 1)) :: rat) \<le> of_nat n"
    by (simp only: of_nat_le_iff)
  then show "(2::rat) ^ (bit_length n - 1) \<le> of_nat n"
    by simp
  from b have "Suc n \<le> 2 ^ bit_length n" by simp
  then have "(of_nat (Suc n) :: rat) \<le> of_nat (2 ^ bit_length n)"
    by (simp only: of_nat_le_iff)
  then show "(of_nat n :: rat) + 1 \<le> 2 ^ bit_length n"
    by simp
  show "0 < bit_length n"
    using assms by (simp add: bit_length.simps [of n])
qed

lemma pow2_powi: "pow2 e = 2 powi e"
  by (simp add: pow2_def power_int_def field_simps)

lemma pow2_pos: "0 < pow2 e"
  by (simp add: pow2_powi)

lemma pow2_less_imp: "pow2 a < pow2 b \<Longrightarrow> a < b"
  using power_int_increasing [of b a "2::rat"] by (auto simp: pow2_powi not_le [symmetric])

lemma pow2_nat: "pow2 (int n) = 2 ^ n"
  by (simp add: pow2_def)

lemma pow2_neg_nat: "pow2 (- int n) = 1 / 2 ^ n"
  by (cases "n = 0") (simp_all add: pow2_def)

text \<open>\<open>ilog2\<close> is the binary exponent.\<close>

lemma ilog2_bounds:
  assumes "0 < q"
  shows "pow2 (ilog2 q) \<le> q \<and> q < pow2 (ilog2 q + 1)"
proof (cases "1 \<le> q")
  case True
  let ?n = "nat \<lfloor>q\<rfloor>"
  from True have fl: "1 \<le> \<lfloor>q\<rfloor>" by simp
  then have n: "0 < ?n" by simp
  note b = bit_length_rat [OF n]
  have il: "ilog2 q = int (bit_length ?n - 1)"
    using True b(3) by (simp add: ilog2_def)
  have il1: "ilog2 q + 1 = int (bit_length ?n)"
    using il b(3) by simp
  from fl have nq: "(of_nat ?n :: rat) = of_int \<lfloor>q\<rfloor>"
    by simp
  have "of_int \<lfloor>q\<rfloor> \<le> q" "q < of_int \<lfloor>q\<rfloor> + 1"
    by (simp_all add: floor_less_cancel)
  with nq have "(of_nat ?n :: rat) \<le> q" "q < of_nat ?n + 1"
    by simp_all
  with b(1,2) have "2 ^ (bit_length ?n - 1) \<le> q" "q < 2 ^ bit_length ?n"
    by linarith+
  then show ?thesis
    unfolding il1 unfolding il by (simp only: pow2_nat)
next
  case False
  let ?c = "\<lceil>1 / q\<rceil>"
  let ?n = "nat (?c - 1)"
  from False assms have x: "1 < 1 / q" by simp
  then have c: "2 \<le> ?c" by (simp add: le_ceiling_iff)
  then have n: "0 < ?n" by simp
  note b = bit_length_rat [OF n]
  have il: "ilog2 q = - int (bit_length ?n)"
    using False by (simp add: ilog2_def)
  have il1: "ilog2 q + 1 = - int (bit_length ?n - 1)"
    using il b(3) by simp
  from c have "0 \<le> ?c - 1" by linarith
  then have "(of_nat ?n :: rat) = of_int (?c - 1)" by (rule of_nat_nat)
  then have nq: "(of_nat ?n :: rat) = of_int ?c - 1"
    by (simp only: of_int_diff of_int_1)
  have "of_int ?c - 1 < 1 / q" "1 / q \<le> of_int ?c"
    using ceiling_correct [of "1 / q"] by simp_all
  with nq have lo: "(of_nat ?n :: rat) < 1 / q" and hi: "1 / q \<le> of_nat ?n + 1"
    by simp_all
  from lo b(1) have "(2::rat) ^ (bit_length ?n - 1) < 1 / q" by linarith
  with assms have up: "q < 1 / 2 ^ (bit_length ?n - 1)"
    by (simp add: field_simps)
  from hi b(2) have "1 / q \<le> (2::rat) ^ bit_length ?n" by linarith
  with assms have down: "1 / 2 ^ bit_length ?n \<le> q"
    by (simp add: field_simps)
  from up down show ?thesis
    unfolding il1 unfolding il by (simp only: pow2_neg_nat)
qed

lemma ilog2_eq:
  assumes "pow2 k \<le> q" and "q < pow2 (k + 1)"
  shows "ilog2 q = k"
proof -
  from assms(1) pow2_pos [of k] have "0 < q" by linarith
  from ilog2_bounds [OF this] assms
  have "pow2 (ilog2 q) < pow2 (k + 1)" "pow2 k < pow2 (ilog2 q + 1)" by linarith+
  then have "ilog2 q < k + 1" "k < ilog2 q + 1" by (auto dest: pow2_less_imp)
  then show ?thesis by simp
qed

lemma round_half_even_eq:
  assumes "\<bar>x - of_int m\<bar> < 1 / 2"
  shows "round_half_even x = m"
proof (cases "of_int m \<le> x")
  case True
  with assms have "\<lfloor>x\<rfloor> = m" by (intro floor_unique) (auto simp: abs_if split: if_splits)
  with assms True show ?thesis by (simp add: round_half_even_def)
next
  case False
  with assms have f: "\<lfloor>x\<rfloor> = m - 1" by (intro floor_unique) (auto simp: abs_if split: if_splits)
  from assms False have "1 / 2 < x - of_int (m - 1)" by (auto simp: abs_if split: if_splits)
  with f show ?thesis by (simp add: round_half_even_def)
qed

lemma round_half_even_mono_ge:
  assumes "of_int n \<le> x"
  shows "n \<le> round_half_even x"
proof -
  from assms have "n \<le> \<lfloor>x\<rfloor>" by (simp add: le_floor_iff)
  then show ?thesis by (auto simp: round_half_even_def Let_def)
qed

text \<open>
  The value of \<open>to_double\<close> from the binary exponent \<open>k\<close> of \<open>q\<close> and the nearest
  multiple \<open>m\<close> of \<open>2\<^sup>e\<close>, when that one is strictly the nearest.
\<close>

lemma to_double_finite:
  assumes "pow2 k \<le> q" and "q < pow2 (k + 1)"
      and "e = max (k - 52) (- 1074)"
      and "\<bar>q / pow2 e - of_int m\<bar> < 1 / 2"
      and "of_int m * pow2 e < 2 ^ 1024" and "m \<noteq> 0"
  shows "to_double neg q = Finite (if neg then - (of_int m * pow2 e) else of_int m * pow2 e)"
proof -
  from assms(1) pow2_pos [of k] have "0 < q" by linarith
  moreover have "of_int m * pow2 e \<noteq> 0"
    using assms(6) pow2_pos [of e] by simp
  moreover note r = round_half_even_eq [OF assms(4)]
  ultimately show ?thesis
    using assms(5) unfolding assms(3)
    by (simp add: to_double_def ilog2_eq [OF assms(1,2)] r [unfolded assms(3)] Let_def)
qed

text \<open>A double in the normal range is its own Number value.\<close>

lemma to_double_exact:
  assumes "pow2 k \<le> q" and "q < pow2 (k + 1)" and "- 1022 \<le> k" and "k \<le> 1023"
      and "q / pow2 (k - 52) = of_int m"
  shows "to_double neg q = Finite (if neg then - q else q)"
proof -
  from assms(1) pow2_pos [of k] have q: "0 < q" by linarith
  have e: "k - 52 = max (k - 52) (- 1074)" using assms(3) by simp
  from assms(5) have mq: "of_int m * pow2 (k - 52) = q"
    using pow2_pos [of "k - 52"] by (simp add: field_simps)
  have "pow2 (k + 1) \<le> pow2 1024"
    using assms(4) power_int_increasing [of "k + 1" 1024 "2::rat"] by (simp add: pow2_powi)
  with assms(2) have "q < 2 ^ 1024" by (simp add: pow2_def [of 1024])
  with mq have lt: "of_int m * pow2 (k - 52) < 2 ^ 1024" by simp
  from mq q have m0: "m \<noteq> 0" by auto
  have "\<bar>q / pow2 (k - 52) - of_int m\<bar> < 1 / 2" using assms(5) by simp
  from to_double_finite [OF assms(1,2) e this lt m0, of neg] mq show ?thesis
    by simp
qed

lemma to_double_overflow:
  assumes "2 ^ 1024 \<le> q"
  shows "to_double neg q = (if neg then NegInfinity else PosInfinity)"
proof -
  have q: "0 < q" using assms by (rule less_le_trans [rotated]) simp
  let ?k = "ilog2 q"
  note b = ilog2_bounds [OF q]
  have "pow2 1024 \<le> q" using assms by (simp add: pow2_def)
  with b have "pow2 1024 < pow2 (?k + 1)" by linarith
  then have k: "1024 \<le> ?k" by (auto dest: pow2_less_imp)
  let ?e = "?k - 52"
  have e: "max (?k - 52) (- 1074) = ?e" using k by simp
  have "(2::rat) powi (52 + ?e) = 2 powi 52 * 2 powi ?e"
    by (rule power_int_add) simp
  then have split: "pow2 ?k = pow2 52 * pow2 ?e"
    by (simp only: pow2_powi) simp
  have "pow2 52 \<le> q / pow2 ?e"
    using b split pow2_pos [of ?e] by (simp add: field_simps)
  then have "of_int (2 ^ 52) \<le> q / pow2 ?e"
    by (simp add: pow2_def)
  from round_half_even_mono_ge [OF this]
  have "(of_int (2 ^ 52) :: rat) \<le> of_int (round_half_even (q / pow2 ?e))"
    by (simp only: of_int_le_iff)
  then have "pow2 52 * pow2 ?e \<le> of_int (round_half_even (q / pow2 ?e)) * pow2 ?e"
    using pow2_pos [of ?e] by (simp add: pow2_def [of 52])
  with split have "pow2 ?k \<le> of_int (round_half_even (q / pow2 ?e)) * pow2 ?e" by simp
  moreover have "pow2 1024 \<le> pow2 ?k"
    using k power_int_increasing [of 1024 ?k "2::rat"] by (simp add: pow2_powi)
  ultimately have "2 ^ 1024 \<le> of_int (round_half_even (q / pow2 ?e)) * pow2 ?e"
    by (simp add: pow2_def [of 1024])
  with q e show ?thesis
    by (simp add: to_double_def Let_def)
qed

lemma to_double_underflow:
  assumes "q < 1 / 2 ^ 1075"
  shows "to_double neg q = (if neg then NegZero else Finite 0)"
proof (cases "0 < q")
  case False
  then show ?thesis by (simp add: to_double_def)
next
  case True
  let ?k = "ilog2 q"
  note b = ilog2_bounds [OF True]
  have "q < pow2 (- 1075)" using assms by (simp add: pow2_def)
  with b have "pow2 ?k < pow2 (- 1075)" by linarith
  then have k: "?k < - 1075" by (auto dest: pow2_less_imp)
  then have e: "max (?k - 52) (- 1074) = - 1074" by simp
  have "q / pow2 (- 1074) < 1 / 2"
    using assms by (simp add: pow2_def field_simps)
  moreover have "0 \<le> q / pow2 (- 1074)"
    using True by (simp add: pow2_def)
  ultimately have "\<bar>q / pow2 (- 1074) - of_int 0\<bar> < 1 / 2" by simp
  from round_half_even_eq [OF this] True e show ?thesis
    by (simp add: to_double_def Let_def)
qed

lemma to_double_not_NaN: "to_double neg q \<noteq> NaN"
  by (simp add: to_double_def Let_def)

section \<open>\<^verbatim>\<open>parseFloat\<close> reads the literal it is given\<close>

lemma takeWhile_digits:
  "all_digits ds \<Longrightarrow> u = [] \<or> \<not> is_digit (hd u) \<Longrightarrow> takeWhile is_digit (ds @ u) = ds"
  by (cases u) (auto simp: all_digits_def list_all_iff takeWhile_tail [where l = "tl u"])

lemma dropWhile_digits:
  "all_digits ds \<Longrightarrow> u = [] \<or> \<not> is_digit (hd u) \<Longrightarrow> dropWhile is_digit (ds @ u) = u"
  by (cases u) (auto simp: all_digits_def list_all_iff dropWhile_append3)

lemma foldl_digits:
  "foldl (\<lambda>n c. 10 * n + digit_val c) a ds = a * 10 ^ length ds + digits_val ds"
  unfolding digits_val_def
proof (induction ds arbitrary: a)
  case Nil
  then show ?case by simp
next
  case (Cons d ds)
  let ?f = "\<lambda>n c. 10 * n + digit_val c"
  have "foldl ?f a (d # ds) = foldl ?f (10 * a + digit_val d) ds"
    by simp
  also have "\<dots> = (10 * a + digit_val d) * 10 ^ length ds + foldl ?f 0 ds"
    by (rule Cons.IH)
  also have "\<dots> = a * 10 ^ length (d # ds) + (digit_val d * 10 ^ length ds + foldl ?f 0 ds)"
    by (simp add: algebra_simps)
  also have "digit_val d * 10 ^ length ds + foldl ?f 0 ds = foldl ?f (digit_val d) ds"
    by (rule Cons.IH [symmetric])
  also have "foldl ?f (digit_val d) ds = foldl ?f 0 (d # ds)"
    by simp
  finally show ?case .
qed

lemma digits_val_Nil: "digits_val [] = 0"
  by (simp add: digits_val_def)

lemma digits_val_append:
  "digits_val (ip @ fp) = digits_val ip * 10 ^ length fp + digits_val fp"
  using foldl_digits [of "digits_val ip" fp] by (simp add: digits_val_def)

lemma scale10_powi: "scale10 m e = m * 10 powi e"
  by (simp add: scale10_def power_int_def field_simps)

lemma scale10_shift: "scale10 (m * 10 ^ k) (e - int k) = scale10 m e"
  by (simp add: scale10_powi power_int_diff)

text \<open>
  Reading the digits before and after the dot as one number and lowering the exponent
  by the number of fraction digits gives the value of the grammar.
\<close>

lemma scale10_fraction:
  "scale10 (of_nat (digits_val (ip @ fp))) (e - int (length fp)) =
   scale10 (of_nat (digits_val ip) + of_nat (digits_val fp) / 10 ^ length fp) e"
proof -
  have "(of_nat (digits_val (ip @ fp)) :: rat) =
        (of_nat (digits_val ip) + of_nat (digits_val fp) / 10 ^ length fp) * 10 ^ length fp"
    by (simp add: digits_val_append field_simps)
  then show ?thesis
    by (simp only: scale10_shift)
qed

lemma is_digit_cases:
  "is_digit c \<Longrightarrow>
   c \<noteq> CHR ''+'' \<and> c \<noteq> CHR ''-'' \<and> c \<noteq> CHR ''.'' \<and> c \<noteq> CHR ''e'' \<and> c \<noteq> CHR ''E''
     \<and> c \<noteq> CHR ''I'' \<and> \<not> is_ws c"
  by (auto simp: is_digit_def is_ws_def)

lemma read_sign_render:
  "r = [] \<or> (hd r \<noteq> CHR ''+'' \<and> hd r \<noteq> CHR ''-'') \<Longrightarrow>
   read_sign (render_sign sg @ r) = (sg = Minus, r)"
  by (cases sg; cases r) auto

lemma hd_digits:
  "ds \<noteq> [] \<Longrightarrow> all_digits ds \<Longrightarrow> is_digit (hd (ds @ u))"
  by (cases ds) (auto simp: all_digits_def)

lemma no_digit_head:
  "\<not> starts_with_digit t \<Longrightarrow> t = [] \<or> \<not> is_digit (hd t)"
  by (cases t) auto

lemma continues_Nil: "\<not> continues l []"
proof (cases l)
  case (InfinityLit sg)
  then show ?thesis by simp
next
  case (Decimal sg m e)
  then show ?thesis by (cases m; cases e) simp_all
qed

lemma MV_not_NaN: "MV l \<noteq> NaN"
  by (cases l rule: MV.cases) (simp_all add: to_double_not_NaN)

lemma read_exponent_none:
  assumes "\<not> exponent_follows t"
  shows "read_exponent t = 0"
proof (cases t)
  case Nil
  then show ?thesis by simp
next
  case (Cons c cs)
  show ?thesis
  proof (cases cs)
    case Nil
    with Cons show ?thesis by simp
  next
    case inner: (Cons d ds)
    with Cons assms show ?thesis
      by (cases ds) (auto simp: takeWhile_eq_Nil_iff)
  qed
qed

lemma read_exponent_some:
  assumes "valid_exponent (Exp c sg ds)" and "\<not> starts_with_digit t"
  shows "read_exponent (render_exponent (Exp c sg ds) @ t) = MV_exponent (Exp c sg ds)"
proof -
  from assms(1) have c: "c = CHR ''e'' \<or> c = CHR ''E''" and ds: "ds \<noteq> []" "all_digits ds"
    by auto
  from ds have "hd (ds @ t) \<noteq> CHR ''+'' \<and> hd (ds @ t) \<noteq> CHR ''-''"
    using hd_digits [of ds t] is_digit_cases by blast
  then have sign: "read_sign (render_sign sg @ ds @ t) = (sg = Minus, ds @ t)"
    by (simp add: read_sign_render)
  from no_digit_head [OF assms(2)] ds have tw: "takeWhile is_digit (ds @ t) = ds"
    by (intro takeWhile_digits) auto
  from c sign tw ds show ?thesis
    by (cases sg) auto
qed

lemma read_exponent_render:
  assumes "valid_exponent e" and "\<not> continues (Decimal sg m e) t"
  shows "read_exponent (render_exponent e @ t) = MV_exponent e"
proof (cases e)
  case NoExp
  with assms(2) have "\<not> exponent_follows t" by (cases m) auto
  with NoExp show ?thesis by (simp add: read_exponent_none)
next
  case (Exp c es ds)
  with assms show ?thesis by (simp only: read_exponent_some continues.simps not_False_eq_True)
qed

lemma exponent_head:
  assumes "valid_exponent e" and "\<not> continues (Decimal sg m e) t"
  shows "render_exponent e @ t = [] \<or> \<not> is_digit (hd (render_exponent e @ t))"
proof (cases e)
  case NoExp
  with assms(2) have "\<not> starts_with_digit t" by (cases m) auto
  with NoExp no_digit_head show ?thesis by auto
next
  case (Exp c es ds)
  with assms(1) show ?thesis by (auto simp: is_digit_def)
qed

lemma exponent_head_dot:
  assumes "valid_exponent e" and "\<not> continues (Decimal sg (IntOnly ip) e) t"
  shows "render_exponent e @ t = [] \<or> hd (render_exponent e @ t) \<noteq> CHR ''.''"
proof (cases e)
  case NoExp
  with assms(2) show ?thesis by (cases t) auto
next
  case (Exp c es ds)
  with assms(1) show ?thesis by auto
qed

text \<open>The digit forms, one case for each alternative of the grammar.\<close>

lemma parse_decimal_render:
  assumes "valid_mantissa m" and "valid_exponent e" and "\<not> continues (Decimal sg m e) t"
  shows "parse_decimal neg (render_mantissa m @ render_exponent e @ t) =
         to_double neg (scale10 (MV_mantissa m) (MV_exponent e))"
proof -
  let ?u = "render_exponent e @ t"
  note u = exponent_head [OF assms(2,3)]
  note ex = read_exponent_render [OF assms(2,3)]
  show ?thesis
  proof (cases m)
    case (IntDot ip fp)
    with assms(1) have ip: "ip \<noteq> []" "all_digits ip" and fp: "all_digits fp" by auto
    have r: "render_mantissa m @ ?u = ip @ (CHR ''.'' # fp @ ?u)"
      using IntDot by simp
    have t1: "takeWhile is_digit (ip @ (CHR ''.'' # fp @ ?u)) = ip"
      using ip by (intro takeWhile_digits) (auto simp: is_digit_def)
    have d1: "dropWhile is_digit (ip @ (CHR ''.'' # fp @ ?u)) = CHR ''.'' # fp @ ?u"
      using ip by (intro dropWhile_digits) (auto simp: is_digit_def)
    have t2: "takeWhile is_digit (fp @ ?u) = fp"
      using fp u by (intro takeWhile_digits) auto
    have d2: "dropWhile is_digit (fp @ ?u) = ?u"
      using fp u by (intro dropWhile_digits) auto
    have "parse_decimal neg (ip @ (CHR ''.'' # fp @ ?u)) =
          to_double neg (scale10 (of_nat (digits_val (ip @ fp))) (MV_exponent e - int (length fp)))"
      unfolding parse_decimal_def t1 d1 using ip t2 d2 ex by (simp add: Let_def)
    then show ?thesis
      unfolding r using IntDot by (simp add: scale10_fraction)
  next
    case (DotFrac fp)
    with assms(1) have fp: "fp \<noteq> []" "all_digits fp" by auto
    have r: "render_mantissa m @ ?u = CHR ''.'' # fp @ ?u"
      using DotFrac by simp
    have t2: "takeWhile is_digit (fp @ ?u) = fp"
      using fp u by (intro takeWhile_digits) auto
    have d2: "dropWhile is_digit (fp @ ?u) = ?u"
      using fp u by (intro dropWhile_digits) auto
    have nd: "\<not> is_digit CHR ''.''" by (simp add: is_digit_def)
    have "parse_decimal neg (CHR ''.'' # fp @ ?u) =
          to_double neg (scale10 (of_nat (digits_val ([] @ fp))) (MV_exponent e - int (length fp)))"
      unfolding parse_decimal_def using fp t2 d2 ex nd by (simp add: Let_def)
    then show ?thesis
      unfolding r scale10_fraction using DotFrac by (simp add: digits_val_Nil)
  next
    case (IntOnly ip)
    with assms(1) have ip: "ip \<noteq> []" "all_digits ip" by auto
    note dot = exponent_head_dot [OF assms(2) assms(3) [unfolded IntOnly]]
    have r: "render_mantissa m @ ?u = ip @ ?u"
      using IntOnly by simp
    have t1: "takeWhile is_digit (ip @ ?u) = ip"
      using ip u by (intro takeWhile_digits) auto
    have d1: "dropWhile is_digit (ip @ ?u) = ?u"
      using ip u by (intro dropWhile_digits) auto
    have "parse_decimal neg (ip @ ?u) =
          to_double neg (scale10 (of_nat (digits_val ip)) (MV_exponent e))"
      unfolding parse_decimal_def t1 d1 using ip dot ex by (cases ?u) (auto simp: Let_def)
    then show ?thesis
      unfolding r using IntOnly by simp
  qed
qed

lemma mantissa_head:
  assumes "valid_mantissa m"
  shows "render_mantissa m @ u \<noteq> [] \<and>
         (is_digit (hd (render_mantissa m @ u)) \<or> hd (render_mantissa m @ u) = CHR ''.'')"
proof (cases m)
  case (IntDot ip fp)
  with assms hd_digits [of ip "CHR ''.'' # fp @ u"] show ?thesis by auto
next
  case (DotFrac fp)
  then show ?thesis by simp
next
  case (IntOnly ip)
  with assms hd_digits [of ip u] show ?thesis by auto
qed

lemma dropWhile_ws:
  "list_all is_ws w \<Longrightarrow> r \<noteq> [] \<Longrightarrow> \<not> is_ws (hd r) \<Longrightarrow> dropWhile is_ws (w @ r) = r"
  by (cases r) (auto simp: list_all_iff dropWhile_append3)

lemma sign_head:
  "r \<noteq> [] \<Longrightarrow> \<not> is_ws (hd r) \<Longrightarrow>
   render_sign sg @ r \<noteq> [] \<and> \<not> is_ws (hd (render_sign sg @ r))"
  by (cases sg) (auto simp: is_ws_def)

text \<open>
  A string made of white space, a valid literal and a tail that does not continue the
  literal is read as the value of the literal.
\<close>

lemma parseFloat_string_render:
  assumes "valid_literal l" and "list_all is_ws w" and "\<not> continues l t"
  shows "parseFloat_string (w @ render l @ t) = MV l"
proof (cases l)
  case (InfinityLit sg)
  have "dropWhile is_ws (w @ render_sign sg @ ''Infinity'' @ t) = render_sign sg @ ''Infinity'' @ t"
    using assms(2) sign_head [of "''Infinity'' @ t" sg]
    by (intro dropWhile_ws) (auto simp: is_ws_def)
  moreover have "read_sign (render_sign sg @ ''Infinity'' @ t) = (sg = Minus, ''Infinity'' @ t)"
    by (intro read_sign_render) simp
  ultimately show ?thesis
    using InfinityLit by (cases sg) (simp_all add: parseFloat_string_def)
next
  case (Decimal sg m e)
  with assms(1) have m: "valid_mantissa m" and e: "valid_exponent e" by auto
  let ?body = "render_mantissa m @ render_exponent e @ t"
  note h = mantissa_head [OF m, of "render_exponent e @ t"]
  from h have body: "?body \<noteq> []" "\<not> is_ws (hd ?body)" "hd ?body \<noteq> CHR ''+''"
      "hd ?body \<noteq> CHR ''-''" "hd ?body \<noteq> CHR ''I''"
    using is_digit_cases by (auto simp: is_ws_def)
  have "dropWhile is_ws (w @ render_sign sg @ ?body) = render_sign sg @ ?body"
    using assms(2) sign_head [OF body(1,2)] by (intro dropWhile_ws) auto
  moreover have "read_sign (render_sign sg @ ?body) = (sg = Minus, ?body)"
    using body by (intro read_sign_render) simp
  moreover have "take 8 ?body \<noteq> ''Infinity''"
    using body(1,5) by (cases ?body) auto
  ultimately have "parseFloat_string (w @ render l @ t) = parse_decimal (sg = Minus) ?body"
    using Decimal by (simp add: parseFloat_string_def)
  also have "\<dots> = MV l"
    using Decimal
    by (cases sg) (simp_all add: parse_decimal_render [OF m e assms(3) [unfolded Decimal]])
  finally show ?thesis .
qed

text \<open>
  Conversely, every string that is read as a number has this shape: white space, a valid
  literal, and a tail that does not continue it.
\<close>

lemma all_digits_takeWhile: "all_digits (takeWhile is_digit r)"
  by (simp add: all_digits_def list_all_iff) (meson set_takeWhileD)

lemma not_digit_dropWhile: "\<not> starts_with_digit (dropWhile is_digit r)"
  by (induction r) auto

lemma read_sign_cases:
  obtains (minus) r where "s = CHR ''-'' # r" "read_sign s = (True, r)"
        | (plus) r where "s = CHR ''+'' # r" "read_sign s = (False, r)"
        | (none) "read_sign s = (False, s)" "s = [] \<or> (hd s \<noteq> CHR ''-'' \<and> hd s \<noteq> CHR ''+'')"
  by (cases s) (auto split: if_splits)

lemma read_sign_decompose:
  "\<exists>sg. s = render_sign sg @ snd (read_sign s) \<and> fst (read_sign s) = (sg = Minus)"
proof (cases s rule: read_sign_cases)
  case (minus r)
  then show ?thesis by (intro exI [of _ Minus]) simp
next
  case (plus r)
  then show ?thesis by (intro exI [of _ Plus]) simp
next
  case none
  then show ?thesis by (intro exI [of _ NoSign]) simp
qed

lemma exponent_decompose:
  "\<exists>e t. r2 = render_exponent e @ t \<and> valid_exponent e
        \<and> (case e of NoExp \<Rightarrow> \<not> exponent_follows t | Exp c es ds \<Rightarrow> \<not> starts_with_digit t)"
proof (cases "exponent_follows r2")
  case False
  then show ?thesis by (intro exI [of _ NoExp] exI [of _ r2]) simp
next
  case True
  then obtain c cs where r2: "r2 = c # cs" and c: "c = CHR ''e'' \<or> c = CHR ''E''"
    by (cases r2) auto
  obtain sg where sg: "cs = render_sign sg @ snd (read_sign cs)"
    using read_sign_decompose [of cs] by blast
  let ?r4 = "snd (read_sign cs)"
  have dig: "starts_with_digit ?r4"
    using True r2 by (cases cs) (auto simp: is_digit_def split: if_splits)
  let ?ds = "takeWhile is_digit ?r4" and ?t = "dropWhile is_digit ?r4"
  from dig have ne: "?ds \<noteq> []" by (cases ?r4) auto
  have "r2 = render_exponent (Exp c sg ?ds) @ ?t"
    using r2 sg by simp
  moreover have "valid_exponent (Exp c sg ?ds)"
    using c ne by (simp add: all_digits_takeWhile)
  moreover have "\<not> starts_with_digit ?t"
    by (rule not_digit_dropWhile)
  ultimately show ?thesis
    by (intro exI [of _ "Exp c sg ?ds"] exI [of _ ?t]) simp
qed

lemma parse_decimal_decompose:
  assumes "parse_decimal neg r \<noteq> NaN"
  shows "\<exists>m e t. r = render_mantissa m @ render_exponent e @ t \<and> valid_mantissa m
           \<and> valid_exponent e \<and> \<not> continues (Decimal sg m e) t"
proof -
  let ?ip = "takeWhile is_digit r" and ?r1 = "dropWhile is_digit r"
  have r: "r = ?ip @ ?r1" by simp
  have ip: "all_digits ?ip" by (rule all_digits_takeWhile)
  have nd1: "\<not> starts_with_digit ?r1" by (rule not_digit_dropWhile)
  show ?thesis
  proof (cases "\<exists>cs. ?r1 = CHR ''.'' # cs")
    case True
    then obtain cs where r1: "?r1 = CHR ''.'' # cs" by blast
    let ?fp = "takeWhile is_digit cs" and ?r2 = "dropWhile is_digit cs"
    have fp: "all_digits ?fp" by (rule all_digits_takeWhile)
    have nd2: "\<not> starts_with_digit ?r2" by (rule not_digit_dropWhile)
    from assms r1 have some: "?ip \<noteq> [] \<or> ?fp \<noteq> []"
      by (auto simp: parse_decimal_def Let_def split: if_splits)
    obtain e t where e: "?r2 = render_exponent e @ t" "valid_exponent e"
      and cont: "case e of NoExp \<Rightarrow> \<not> exponent_follows t | Exp c es ds \<Rightarrow> \<not> starts_with_digit t"
      using exponent_decompose [of ?r2] by blast
    have ndt: "e = NoExp \<Longrightarrow> \<not> starts_with_digit t"
      using nd2 e(1) by simp
    have whole: "r = ?ip @ CHR ''.'' # ?fp @ render_exponent e @ t"
      using r r1 e(1) by (metis takeWhile_dropWhile_id)
    show ?thesis
    proof (cases "?ip = []")
      case True
      with some have "?fp \<noteq> []" by simp
      with fp e whole True cont ndt show ?thesis
        by (intro exI [of _ "DotFrac ?fp"] exI [of _ e] exI [of _ t]) (cases e; simp)
    next
      case False
      with ip fp e whole cont ndt show ?thesis
        by (intro exI [of _ "IntDot ?ip ?fp"] exI [of _ e] exI [of _ t]) (cases e; simp)
    qed
  next
    case False
    then have nodot: "case ?r1 of [] \<Rightarrow> True | c # cs \<Rightarrow> c \<noteq> CHR ''.''"
      by (auto split: list.splits)
    with assms have ne: "?ip \<noteq> []"
      by (cases ?r1) (auto simp: parse_decimal_def Let_def split: if_splits)
    obtain e t where e: "?r1 = render_exponent e @ t" "valid_exponent e"
      and cont: "case e of NoExp \<Rightarrow> \<not> exponent_follows t | Exp c es ds \<Rightarrow> \<not> starts_with_digit t"
      using exponent_decompose [of ?r1] by blast
    have ndt: "e = NoExp \<Longrightarrow>
               \<not> starts_with_digit t \<and> (case t of [] \<Rightarrow> True | c # cs \<Rightarrow> c \<noteq> CHR ''.'')"
      using nd1 nodot e(1) by simp
    have whole: "r = ?ip @ render_exponent e @ t"
      using r e(1) by metis
    from ip ne e whole cont ndt show ?thesis
      by (intro exI [of _ "IntOnly ?ip"] exI [of _ e] exI [of _ t]) (cases e; cases t; simp)
  qed
qed

lemma parseFloat_string_decompose:
  assumes "parseFloat_string s \<noteq> NaN"
  shows "\<exists>w l t. s = w @ render l @ t \<and> list_all is_ws w \<and> valid_literal l \<and> \<not> continues l t"
proof -
  let ?w = "takeWhile is_ws s" and ?s' = "dropWhile is_ws s"
  have w: "list_all is_ws ?w"
    by (simp add: list_all_iff) (meson set_takeWhileD)
  obtain sg where sg: "?s' = render_sign sg @ snd (read_sign ?s')"
    and neg: "fst (read_sign ?s') = (sg = Minus)"
    using read_sign_decompose [of ?s'] by blast
  let ?r = "snd (read_sign ?s')"
  have s: "s = ?w @ render_sign sg @ ?r"
    using sg by (metis takeWhile_dropWhile_id)
  show ?thesis
  proof (cases "take 8 ?r = ''Infinity''")
    case True
    then have "?r = ''Infinity'' @ drop 8 ?r"
      by (metis append_take_drop_id)
    with s have "s = ?w @ render (InfinityLit sg) @ drop 8 ?r"
      by simp
    with w show ?thesis
      by (intro exI [of _ ?w] exI [of _ "InfinityLit sg"] exI [of _ "drop 8 ?r"]) simp
  next
    case False
    with assms have "parse_decimal (sg = Minus) ?r \<noteq> NaN"
      using neg by (simp add: parseFloat_string_def case_prod_unfold)
    from parse_decimal_decompose [OF this, of sg]
    obtain m e t where "?r = render_mantissa m @ render_exponent e @ t" "valid_mantissa m"
      "valid_exponent e" "\<not> continues (Decimal sg m e) t"
      by blast
    with s w show ?thesis
      by (intro exI [of _ ?w] exI [of _ "Decimal sg m e"] exI [of _ t]) simp
  qed
qed

text \<open>
  So \<^verbatim>\<open>parseFloat\<close> gives not-a-number exactly for the strings with no numeric prefix
  after their leading white space.
\<close>

lemma parseFloat_string_NaN_iff:
  "parseFloat_string s = NaN \<longleftrightarrow>
   \<not> (\<exists>w l t. s = w @ render l @ t \<and> list_all is_ws w \<and> valid_literal l \<and> \<not> continues l t)"
  using parseFloat_string_decompose [of s] parseFloat_string_render MV_not_NaN
  by metis

lemma parseFloat_empty: "parseFloat_string [] = NaN"
  by (simp add: parseFloat_string_def parse_decimal_def)

section \<open>Properties of a submission\<close>

lemma handleSubmit_fulfilled:
  "200 \<le> st \<Longrightarrow> st < 300 \<Longrightarrow>
   handleSubmit s (Reply st body) = s\<lparr>error := JNull, results := body\<rparr>"
  by (simp add: handleSubmit_def handleSubmit_begin_def settled_def)

lemma handleSubmit_rejected:
  "\<not> (200 \<le> st \<and> st < 300) \<Longrightarrow>
   handleSubmit s (Reply st body) =
     (case member body ''error'' of
        Inl e \<Rightarrow> s\<lparr>error := JNull, results := JNull\<rparr>
      | Inr v \<Rightarrow> s\<lparr>error := v, results := JNull\<rparr>)"
  by (auto simp: handleSubmit_def handleSubmit_begin_def settled_def split: sum.splits)

lemma handleSubmit_no_reply:
  "handleSubmit s NoReply = s\<lparr>error := JString fallback_message, results := JNull\<rparr>"
  by (simp add: handleSubmit_def handleSubmit_begin_def settled_def)

text \<open>The body in flight after a submission has started is the one the loop built.\<close>

lemma step_submit:
  "step (s, None) Submit = Some (s', Some body) \<Longrightarrow>
   s' = s\<lparr>error := JNull, results := JNull\<rparr> \<and> body = dataToSend (inputs s)"
  by (auto simp: handleSubmit_begin_def)

text \<open>A submission writes results and error only; the inputs stay as they are.\<close>

lemma submission_keeps_inputs:
  "inputs (fst (handleSubmit_begin s)) = inputs s" "inputs (settled s out) = inputs s"
proof -
  show "inputs (fst (handleSubmit_begin s)) = inputs s"
    by (simp add: handleSubmit_begin_def)
  show "inputs (settled s out) = inputs s"
  proof (cases out)
    case (Fulfilled r)
    then show ?thesis by (cases r) (simp add: settled_def)
  next
    case (Rejected err)
    then show ?thesis by (cases "catch_value err") (simp_all add: settled_def)
  qed
qed

text \<open>
  The two failures in which a message is shown: the message of the response body, and
  the fallback when no response arrived.
\<close>

lemma error_field_is_displayed:
  assumes "\<not> (200 \<le> st \<and> st < 300)" and "map_of ps ''error'' = Some (JString msg)"
      and "msg \<noteq> []"
  shows "error_slot (handleSubmit s (Reply st (JObject ps))) =
           Element ''div'' ''error-message'' [Child (JString msg)]"
  using assms by (simp add: handleSubmit_rejected get_own_def error_slot_def)

lemma transport_failure_shows_fallback:
  "error_slot (handleSubmit s NoReply) =
     Element ''div'' ''error-message'' [Child (JString ''An unexpected error occurred.'')]"
  by (simp add: handleSubmit_no_reply error_slot_def fallback_message_def)

section \<open>Properties of runs\<close>

lemma settled_cases:
  "settled s out = s \<or> (\<exists>v. settled s out = s\<lparr>results := v\<rparr>)
     \<or> (\<exists>v. settled s out = s\<lparr>error := v\<rparr>)"
proof (cases out)
  case (Fulfilled r)
  then show ?thesis by (cases r) (auto simp: settled_def)
next
  case (Rejected err)
  then show ?thesis by (cases "catch_value err") (auto simp: settled_def)
qed

lemma step_exclusive:
  assumes "exclusive c" and "step c e = Some c'"
  shows "exclusive c'"
proof (cases c)
  case (Pair s p)
  show ?thesis
  proof (cases e)
    case (Change name val)
    with Pair assms show ?thesis
      by (auto simp: exclusive_def handleInputChange_def)
  next
    case Submit
    with Pair assms show ?thesis
      by (cases p) (auto simp: exclusive_def handleSubmit_begin_def)
  next
    case (Settle rep)
    with Pair assms obtain body
      where p: "p = Some body" and c': "c' = (settled s (axios_post rep), None)"
      by (cases p) auto
    from Pair assms(1) p have "results s = JNull" "error s = JNull"
      by (simp_all add: exclusive_def)
    with settled_cases [of s "axios_post rep"] c' show ?thesis
      by (auto simp: exclusive_def)
  qed
qed

lemma run_exclusive:
  "exclusive c \<Longrightarrow> run c evs = Some c' \<Longrightarrow> exclusive c'"
proof (induction evs arbitrary: c)
  case Nil
  then show ?case by simp
next
  case (Cons e evs)
  then show ?case
    by (cases "step c e") (auto dest: step_exclusive)
qed

lemma exclusive_initial: "exclusive (initial_view, None)"
  by (simp add: exclusive_def initial_view_def)

lemma input_names_InputForm: "input_names (InputForm inps) = map fst inps"
  by (simp add: InputForm_def comp_def)

lemma form_edits_keys:
  "form_edits s es = Some s' \<Longrightarrow> map fst (inputs s') = map fst (inputs s)"
proof (induction es arbitrary: s)
  case Nil
  then show ?case by simp
next
  case (Cons e es)
  obtain name val where e: "e = (name, val)" by (cases e)
  with Cons.prems have inn: "name \<in> set (map fst (inputs s))"
    and rest: "form_edits (handleInputChange s name val) es = Some s'"
    by (auto simp: input_names_InputForm split: if_splits)
  from Cons.IH [OF rest] inn show ?case
    by (simp add: keys_handleInputChange del: set_map)
qed

section \<open>Values of some numeric strings\<close>

lemma to_double_examples:
  "to_double False 5 = Finite 5"
  "to_double False 50 = Finite 50"
  "to_double False 1000 = Finite 1000"
  "to_double True (5 / 2) = Finite (- 5 / 2)"
  "to_double False (3 / 2) = Finite (3 / 2)"
proof -
  show "to_double False 5 = Finite 5"
    using to_double_exact [of 2 5 "5 * 2 ^ 50" False] by (simp add: pow2_def)
  show "to_double False 50 = Finite 50"
    using to_double_exact [of 5 50 "50 * 2 ^ 47" False] by (simp add: pow2_def)
  show "to_double False 1000 = Finite 1000"
    using to_double_exact [of 9 1000 "1000 * 2 ^ 43" False] by (simp add: pow2_def)
  show "to_double True (5 / 2) = Finite (- 5 / 2)"
    using to_double_exact [of 1 "5 / 2" "5 * 2 ^ 50" True] by (simp add: pow2_def)
  show "to_double False (3 / 2) = Finite (3 / 2)"
    using to_double_exact [of 0 "3 / 2" "3 * 2 ^ 51" False] by (simp add: pow2_def)
qed

lemma MV_examples:
  "MV (Decimal NoSign (IntOnly ''5'') NoExp) = Finite 5"
  "MV (Decimal NoSign (IntOnly ''1000'') NoExp) = Finite 1000"
  "MV (Decimal Minus (IntDot ''2'' ''5'') NoExp) = Finite (- 5 / 2)"
  "MV (Decimal NoSign (DotFrac ''5'') (Exp CHR ''e'' NoSign ''1'')) = Finite 5"
  "MV (Decimal NoSign (IntDot ''5'' []) NoExp) = Finite 5"
  "MV (Decimal NoSign (IntDot ''1'' ''5'') NoExp) = Finite (3 / 2)"
  "MV (InfinityLit Plus) = PosInfinity"
  by (simp_all add: scale10_def digits_val_def digit_val_def to_double_examples)

text \<open>\<^verbatim>\<open>1e309\<close> is beyond the largest double, \<^verbatim>\<open>-1e-400\<close> below the smallest.\<close>

lemma MV_overflow_example:
  "MV (Decimal NoSign (IntOnly ''1'') (Exp CHR ''e'' NoSign ''309'')) = PosInfinity"
proof -
  have "2 ^ 1024 \<le> scale10 (of_nat (digits_val ''1'')) (int (digits_val ''309''))"
    by (simp add: scale10_def digits_val_def digit_val_def)
  from to_double_overflow [OF this, of False] show ?thesis
    by simp
qed

lemma MV_underflow_example:
  "MV (Decimal Minus (IntOnly ''1'') (Exp CHR ''e'' Minus ''400'')) = NegZero"
proof -
  have "scale10 (of_nat (digits_val ''1'')) (- int (digits_val ''400'')) < 1 / 2 ^ 1075"
    by (simp add: scale10_def digits_val_def digit_val_def)
  from to_double_underflow [OF this, of True] show ?thesis
    by simp
qed

text \<open>What the loop of the submission makes of such strings.\<close>

lemma coerce_examples:
  "coerce (JString ''1e309'') = PosInfinity"
  "coerce (JString ''-1e-400'') = NegZero"
  "coerce (JString ''5abc'') = Finite 5"
  "coerce (JString ''abc'') = Finite 0"
proof -
  have "parseFloat_string ([] @ render (Decimal NoSign (IntOnly ''1'') (Exp CHR ''e'' NoSign ''309'')) @ [])
          = MV (Decimal NoSign (IntOnly ''1'') (Exp CHR ''e'' NoSign ''309''))"
    by (rule parseFloat_string_render) (simp_all add: all_digits_def is_digit_def)
  then show "coerce (JString ''1e309'') = PosInfinity"
    by (simp add: coerce_parsed isNaN_def MV_overflow_example del: MV.simps(4))
  have "parseFloat_string ([] @ render (Decimal Minus (IntOnly ''1'') (Exp CHR ''e'' Minus ''400'')) @ [])
          = MV (Decimal Minus (IntOnly ''1'') (Exp CHR ''e'' Minus ''400''))"
    by (rule parseFloat_string_render) (simp_all add: all_digits_def is_digit_def)
  then show "coerce (JString ''-1e-400'') = NegZero"
    by (simp add: coerce_parsed isNaN_def MV_underflow_example del: MV.simps(4))
  have "parseFloat_string ([] @ render (Decimal NoSign (IntOnly ''5'') NoExp) @ ''abc'')
          = MV (Decimal NoSign (IntOnly ''5'') NoExp)"
    by (rule parseFloat_string_render) (simp_all add: all_digits_def is_digit_def)
  then show "coerce (JString ''5abc'') = Finite 5"
    by (simp add: coerce_parsed isNaN_def MV_examples del: MV.simps(4))
  show "coerce (JString ''abc'') = Finite 0"
    by (simp add: coerce_parsed isNaN_def parseFloat_string_def parse_decimal_def is_ws_def is_digit_def)
qed

section \<open>The claims\<close>

text \<open>
  Claim C1. A failed submission shows the \<^verbatim>\<open>error\<close> field of the response body when
  there is one, and a generic fallback message in every other failure, also for a
  response whose body has no such field.

  The handler chooses the fallback only when the error carries no response. For a
  response with status 500 whose body is not JSON (axios hands over the text), or whose
  body is an object without \<^verbatim>\<open>error\<close>, it stores \<^verbatim>\<open>undefined\<close>: the view shows
  neither a message nor a result, and the fallback text does not appear.
\<close>

theorem failed_response_without_error_field:
  "error (handleSubmit initial_view (Reply 500 (JString ''Internal Server Error''))) = JUndefined
 \<and> error_slot (handleSubmit initial_view (Reply 500 (JString ''Internal Server Error'')))
     = Child JUndefined
 \<and> shows_nothing (error_slot (handleSubmit initial_view (Reply 500 (JString ''Internal Server Error''))))
 \<and> results_slot (handleSubmit initial_view (Reply 500 (JString ''Internal Server Error'')))
     = Inr (Child JNull)
 \<and> error_slot (handleSubmit initial_view (Reply 500 (JObject []))) = Child JUndefined"
  by (simp add: handleSubmit_rejected error_slot_def results_slot_def get_own_def)

text \<open>
  Claim C2. When a submission starts from a view in which the stored value of a field
  is the empty string or a string that \<^verbatim>\<open>parseFloat\<close> reads as not-a-number, the
  field of the body it posts is 0. (The name \<^verbatim>\<open>__proto__\<close> is not a field of the body
  at all, see \<open>assign\<close>.)
\<close>

theorem unparsable_field_sent_as_zero:
  assumes "step (s, None) Submit = Some (s', Some body)"
      and "map_of (inputs s) k = Some (JString str)"
      and "k \<noteq> ''__proto__''"
      and "str = [] \<or> isNaN (parseFloat_string str)"
    shows "map_of body k = Some (JNumber (Finite 0))"
proof -
  from assms(1) have body: "body = dataToSend (inputs s)"
    by (auto simp: handleSubmit_begin_def)
  have "isNaN (parseFloat (get_own (inputs s) k))"
    using assms(2,4) by (auto simp: get_own_map_of parseFloat_empty isNaN_def)
  then have "coerce (get_own (inputs s) k) = Finite 0"
    by (simp add: coerce_def)
  with assms(2,3) show ?thesis
    unfolding body by (simp add: map_of_dataToSend map_of_in_keys del: set_map)
qed

theorem unparsable_field_sent_as_zero_witness:
  "step (initial_view\<lparr>inputs := [(''K'', JString []), (''I'', JString ''abc'')]\<rparr>, None) Submit
     = Some (fst (handleSubmit_begin (initial_view\<lparr>inputs := [(''K'', JString []), (''I'', JString ''abc'')]\<rparr>)),
             Some (snd (handleSubmit_begin (initial_view\<lparr>inputs := [(''K'', JString []), (''I'', JString ''abc'')]\<rparr>))))
 \<and> isNaN (parseFloat_string ''abc'')
 \<and> map_of (snd (handleSubmit_begin (initial_view\<lparr>inputs := [(''K'', JString []), (''I'', JString ''abc'')]\<rparr>))) ''I''
     = Some (JNumber (Finite 0))
 \<and> map_of (snd (handleSubmit_begin (initial_view\<lparr>inputs := [(''K'', JString []), (''I'', JString ''abc'')]\<rparr>))) ''K''
     = Some (JNumber (Finite 0))"
proof -
  let ?s = "initial_view\<lparr>inputs := [(''K'', JString []), (''I'', JString ''abc'')]\<rparr>"
  have st: "step (?s, None) Submit = Some (fst (handleSubmit_begin ?s), Some (snd (handleSubmit_begin ?s)))"
    by (simp add: split_beta)
  have nan: "isNaN (parseFloat_string ''abc'')"
    by (simp add: isNaN_def parseFloat_string_def parse_decimal_def is_ws_def is_digit_def)
  have "map_of (snd (handleSubmit_begin ?s)) ''I'' = Some (JNumber (Finite 0))"
    using nan by (intro unparsable_field_sent_as_zero [OF st, where str = "''abc''"]) simp_all
  moreover
  have "map_of (snd (handleSubmit_begin ?s)) ''K'' = Some (JNumber (Finite 0))"
    by (intro unparsable_field_sent_as_zero [OF st, where str = "[]"]) simp_all
  ultimately show ?thesis
    using st nan by simp
qed

text \<open>
  Claim C3. When a submission starts from a view in which the stored value of every
  field is a valid numeric string, the body it posts has the fields of the inputs, each
  with the Number \<^verbatim>\<open>parseFloat\<close> reads from the stored string, and that Number is the
  value of the string as a numeric literal (its mathematical value rounded to a double).
  \<open>lit\<close> gives the literal each field holds. When no name is an array index the body
  also has the fields in the order of the inputs.
\<close>

theorem numeric_fields_sent_exactly:
  assumes "step (s, None) Submit = Some (s', Some body)"
      and "''__proto__'' \<notin> set (map fst (inputs s))"
      and "\<forall>k v. map_of (inputs s) k = Some v \<longrightarrow> valid_literal (lit k) \<and> v = JString (render (lit k))"
    shows "(\<forall>k. map_of body k = map_option (\<lambda>v. JNumber (parseFloat v)) (map_of (inputs s) k))
         \<and> (\<forall>k v. map_of (inputs s) k = Some v \<longrightarrow> parseFloat v = MV (lit k))
         \<and> (distinct (map fst (inputs s)) \<and> (\<forall>k \<in> set (map fst (inputs s)). \<not> is_array_index k) \<longrightarrow>
              body = map (\<lambda>(k, v). (k, JNumber (parseFloat v))) (inputs s))"
proof -
  from assms(1) have body: "body = dataToSend (inputs s)"
    by (auto simp: handleSubmit_begin_def)
  have p: "parseFloat v = MV (lit k)" if "map_of (inputs s) k = Some v" for k v
  proof -
    from that assms(3) have l: "valid_literal (lit k)" and v: "v = JString (render (lit k))"
      by auto
    have "parseFloat_string ([] @ render (lit k) @ []) = MV (lit k)"
      using l by (intro parseFloat_string_render) (simp_all add: continues_Nil)
    with v show ?thesis by simp
  qed
  have c: "coerce v = parseFloat v" if "map_of (inputs s) k = Some v" for k v
    using p [OF that] MV_not_NaN [of "lit k"] by (simp add: coerce_parsed isNaN_def)
  have fields: "map_of body k = map_option (\<lambda>v. JNumber (parseFloat v)) (map_of (inputs s) k)" for k
  proof (cases "map_of (inputs s) k")
    case None
    then have "k \<notin> set (map fst (inputs s))"
      by (simp add: map_of_eq_None_iff)
    with None show ?thesis
      unfolding body by (simp add: map_of_dataToSend del: set_map)
  next
    case (Some v)
    have kin: "k \<in> set (map fst (inputs s))"
      by (rule map_of_in_keys [OF Some])
    with assms(2) have "k \<noteq> ''__proto__''"
      by blast
    with kin Some c [OF Some] show ?thesis
      unfolding body by (simp add: map_of_dataToSend get_own_map_of del: set_map)
  qed
  have whole: "body = map (\<lambda>(k, v). (k, JNumber (parseFloat v))) (inputs s)"
    if d: "distinct (map fst (inputs s))" and n: "\<forall>k \<in> set (map fst (inputs s)). \<not> is_array_index k"
  proof -
    have "coerce v = parseFloat v" if "(k, v) \<in> set (inputs s)" for k v
      using that d c [of k v] by simp
    then have "map (\<lambda>(k, v). (k, JNumber (coerce v))) (inputs s) =
               map (\<lambda>(k, v). (k, JNumber (parseFloat v))) (inputs s)"
      by auto
    with dataToSend_entries [OF d assms(2) n] show ?thesis
      unfolding body by simp
  qed
  from fields p whole show ?thesis
    by blast
qed

theorem numeric_fields_sent_exactly_witness:
  "snd (handleSubmit_begin (initial_view\<lparr>inputs :=
      [(''K'', JString ''1000''), (''I'', JString ''-2.5''), (''F'', JString ''.5e1''),
       (''S'', JString ''1e309''), (''CR0'', JString ''5.''), (''CD0'', JString ''+Infinity'')]\<rparr>))
   = [(''K'', JNumber (Finite 1000)), (''I'', JNumber (Finite (- 5 / 2))), (''F'', JNumber (Finite 5)),
      (''S'', JNumber PosInfinity), (''CR0'', JNumber (Finite 5)), (''CD0'', JNumber PosInfinity)]"
proof -
  let ?lit = "\<lambda>k. if k = ''K'' then Decimal NoSign (IntOnly ''1000'') NoExp
                  else if k = ''I'' then Decimal Minus (IntDot ''2'' ''5'') NoExp
                  else if k = ''F'' then Decimal NoSign (DotFrac ''5'') (Exp CHR ''e'' NoSign ''1'')
                  else if k = ''S'' then Decimal NoSign (IntOnly ''1'') (Exp CHR ''e'' NoSign ''309'')
                  else if k = ''CR0'' then Decimal NoSign (IntDot ''5'' []) NoExp
                  else InfinityLit Plus"
  let ?inps = "[(''K'', JString ''1000''), (''I'', JString ''-2.5''), (''F'', JString ''.5e1''),
               (''S'', JString ''1e309''), (''CR0'', JString ''5.''), (''CD0'', JString ''+Infinity'')]"
  let ?s = "initial_view\<lparr>inputs := ?inps\<rparr>"
  have st: "step (?s, None) Submit = Some (fst (handleSubmit_begin ?s), Some (snd (handleSubmit_begin ?s)))"
    by (simp add: split_beta)
  have hyp: "\<forall>k v. map_of (inputs ?s) k = Some v \<longrightarrow>
               valid_literal (?lit k) \<and> v = JString (render (?lit k))"
    by (simp add: all_digits_def is_digit_def)
  have proto: "''__proto__'' \<notin> set (map fst (inputs ?s))"
    by simp
  note main = numeric_fields_sent_exactly [OF st proto hyp]
  have pv: "parseFloat v = MV (?lit k)" if "map_of (inputs ?s) k = Some v" for k v
    using main that by blast
  have vals:
     "parseFloat (JString ''1000'') = Finite 1000" "parseFloat (JString ''-2.5'') = Finite (- 5 / 2)"
     "parseFloat (JString ''.5e1'') = Finite 5" "parseFloat (JString ''1e309'') = PosInfinity"
     "parseFloat (JString ''5.'') = Finite 5" "parseFloat (JString ''+Infinity'') = PosInfinity"
    using pv [of "''K''" "JString ''1000''"] pv [of "''I''" "JString ''-2.5''"]
      pv [of "''F''" "JString ''.5e1''"] pv [of "''S''" "JString ''1e309''"]
      pv [of "''CR0''" "JString ''5.''"] pv [of "''CD0''" "JString ''+Infinity''"]
    by (simp_all add: MV_examples MV_overflow_example del: MV.simps(4))
  have "distinct (map fst (inputs ?s)) \<and> (\<forall>k \<in> set (map fst (inputs ?s)). \<not> is_array_index k)"
    by (simp add: is_array_index_def all_digits_def is_digit_def)
  with main have "snd (handleSubmit_begin ?s) = map (\<lambda>(k, v). (k, JNumber (parseFloat v))) (inputs ?s)"
    by blast
  then show ?thesis
    using vals by simp
qed

text \<open>
  Claim C4, as amended. The input mutation has no check of the name: for a name that is
  not yet a field it adds a field. The form raises change events only for the inputs it
  renders, one for each current field, so in every state reached from the initial one
  through the form the inputs have exactly the six recognized keys, and the body posted
  by a submission from there is an object with exactly those six fields.
\<close>

theorem form_inputs_keep_six_fields:
  assumes "form_edits initial_view es = Some s"
      and "step (s, None) Submit = Some (s', Some body)"
  shows "map fst (inputs s) = recognized_keys
       \<and> map fst body = recognized_keys
       \<and> (\<forall>name val. name \<notin> set (map fst (inputs s)) \<longrightarrow>
            set (map fst (inputs (handleInputChange s name val))) = insert name (set (map fst (inputs s)))
          \<and> distinct (map fst (inputs (handleInputChange s name val))))"
proof -
  from assms(2) have body: "body = dataToSend (inputs s)"
    by (auto simp: handleSubmit_begin_def)
  from form_edits_keys [OF assms(1)] have k: "map fst (inputs s) = recognized_keys"
    by (simp add: keys_initial)
  have r: "distinct recognized_keys" "''__proto__'' \<notin> set recognized_keys"
      "\<forall>k \<in> set recognized_keys. \<not> is_array_index k"
    by (simp_all add: recognized_keys_def is_array_index_def all_digits_def is_digit_def)
  with k have "map fst body = recognized_keys"
    unfolding body using keys_dataToSend [of "inputs s"] by simp
  moreover from k r(1) have "distinct (map fst (inputs s))"
    by simp
  ultimately show ?thesis
    using k keys_handleInputChange_new(1,2) [of _ s] by blast
qed

theorem form_inputs_keep_six_fields_witness:
  "form_edits initial_view [(''K'', ''-''), (''CD0'', [])] =
     Some (initial_view\<lparr>inputs :=
        [(''K'', JString ''-''), (''I'', JNumber (Finite 10)), (''F'', JNumber (Finite 500)),
         (''S'', JNumber (Finite 50)), (''CR0'', JNumber (Finite 5)), (''CD0'', JString [])]\<rparr>)
   \<and> map fst (snd (handleSubmit_begin (initial_view\<lparr>inputs :=
        [(''K'', JString ''-''), (''I'', JNumber (Finite 10)), (''F'', JNumber (Finite 500)),
         (''S'', JNumber (Finite 50)), (''CR0'', JNumber (Finite 5)), (''CD0'', JString [])]\<rparr>)))
      = [''K'', ''I'', ''F'', ''S'', ''CR0'', ''CD0'']"
proof -
  let ?s = "initial_view\<lparr>inputs :=
        [(''K'', JString ''-''), (''I'', JNumber (Finite 10)), (''F'', JNumber (Finite 500)),
         (''S'', JNumber (Finite 50)), (''CR0'', JNumber (Finite 5)), (''CD0'', JString [])]\<rparr>"
  have r: "form_edits initial_view [(''K'', ''-''), (''CD0'', [])] = Some ?s"
    by (simp add: input_names_InputForm initial_view_def initial_inputs_def handleInputChange_def
        define_property_def)
  have st: "step (?s, None) Submit = Some (fst (handleSubmit_begin ?s), Some (snd (handleSubmit_begin ?s)))"
    by (simp add: split_beta)
  from form_inputs_keep_six_fields [OF r st] show ?thesis
    using r by (simp add: recognized_keys_def)
qed

text \<open>
  The mutation called with a name that is not recognized is not a no-op: the name
  \<^verbatim>\<open>X\<close> becomes a seventh field of the inputs and of the payload.
\<close>

theorem unrecognized_key_is_added:
  "''X'' \<notin> set recognized_keys
 \<and> handleInputChange initial_view ''X'' ''1'' \<noteq> initial_view
 \<and> map fst (dataToSend (inputs (handleInputChange initial_view ''X'' ''1'')))
     = [''K'', ''I'', ''F'', ''S'', ''CR0'', ''CD0'', ''X'']"
proof -
  have x: "\<not> is_array_index ''X''"
    by (simp add: is_array_index_def all_digits_def is_digit_def)
  have new: "''X'' \<notin> set (map fst (inputs initial_view))"
    by (simp add: keys_initial recognized_keys_def)
  have keys: "map fst (inputs (handleInputChange initial_view ''X'' ''1''))
                = [''K'', ''I'', ''F'', ''S'', ''CR0'', ''CD0'', ''X'']"
    using keys_handleInputChange_new(3) [OF new x] by (simp add: keys_initial recognized_keys_def)
  then have "map fst (inputs (handleInputChange initial_view ''X'' ''1'')) \<noteq> map fst (inputs initial_view)"
    by (simp add: keys_initial recognized_keys_def)
  then have "handleInputChange initial_view ''X'' ''1'' \<noteq> initial_view"
    by auto
  moreover have "map fst (dataToSend (inputs (handleInputChange initial_view ''X'' ''1'')))
     = [''K'', ''I'', ''F'', ''S'', ''CR0'', ''CD0'', ''X'']"
    using keys_dataToSend [of "inputs (handleInputChange initial_view ''X'' ''1'')"]
    by (simp add: keys is_array_index_def all_digits_def is_digit_def)
  ultimately show ?thesis
    by (simp add: recognized_keys_def)
qed

text \<open>
  Claim C5. For every key and every raw string, also a transient one such as
  \<^verbatim>\<open>-\<close> or the empty string, the input mutation stores the raw string itself under
  that key: nothing is coerced at the keystroke.
\<close>

theorem raw_string_stored:
  "map_of (inputs (handleInputChange s name val)) name = Some (JString val)"
  by (simp add: handleInputChange_def map_of_define_property)

text \<open>
  Claim C6. In every state reached from the initial view by keystrokes and submissions
  that do not overlap, results and error are not both populated; while a request is in
  flight both are \<^verbatim>\<open>null\<close>; and the start of a submission sets both to \<^verbatim>\<open>null\<close>
  before the request is issued.
\<close>

theorem results_and_error_exclusive:
  assumes "run (initial_view, None) evs = Some (s, p)"
  shows "(results s = JNull \<or> error s = JNull)
       \<and> (p \<noteq> None \<longrightarrow> results s = JNull \<and> error s = JNull)
       \<and> results (fst (handleSubmit_begin s)) = JNull
       \<and> error (fst (handleSubmit_begin s)) = JNull"
proof -
  from run_exclusive [OF exclusive_initial assms]
  have "(results s = JNull \<or> error s = JNull)
      \<and> (p \<noteq> None \<longrightarrow> results s = JNull \<and> error s = JNull)"
    by (simp add: exclusive_def)
  then show ?thesis
    by (simp add: handleSubmit_begin_def)
qed

theorem results_and_error_exclusive_witness:
  "run (initial_view, None)
     [Change ''K'' ''-'', Submit, Change ''K'' ''-2'',
      Settle (Reply 400 (JObject [(''error'', JString ''K must be positive'')])),
      Submit, Settle (Reply 200 (JObject [(''max_damage'', JNumber (Finite 4))]))]
   = Some (\<lparr>inputs = [(''K'', JString ''-2''), (''I'', JNumber (Finite 10)), (''F'', JNumber (Finite 500)),
                     (''S'', JNumber (Finite 50)), (''CR0'', JNumber (Finite 5)), (''CD0'', JNumber (Finite 50))],
            results = JObject [(''max_damage'', JNumber (Finite 4))], error = JNull\<rparr>, None)
   \<and> error \<lparr>inputs = [(''K'', JString ''-2''), (''I'', JNumber (Finite 10)), (''F'', JNumber (Finite 500)),
                     (''S'', JNumber (Finite 50)), (''CR0'', JNumber (Finite 5)), (''CD0'', JNumber (Finite 50))],
            results = JObject [(''max_damage'', JNumber (Finite 4))], error = JNull\<rparr> = JNull"
proof -
  have r: "run (initial_view, None)
     [Change ''K'' ''-'', Submit, Change ''K'' ''-2'',
      Settle (Reply 400 (JObject [(''error'', JString ''K must be positive'')])),
      Submit, Settle (Reply 200 (JObject [(''max_damage'', JNumber (Finite 4))]))]
   = Some (\<lparr>inputs = [(''K'', JString ''-2''), (''I'', JNumber (Finite 10)), (''F'', JNumber (Finite 500)),
                     (''S'', JNumber (Finite 50)), (''CR0'', JNumber (Finite 5)), (''CD0'', JNumber (Finite 50))],
            results = JObject [(''max_damage'', JNumber (Finite 4))], error = JNull\<rparr>, None)"
    by (simp add: initial_view_def initial_inputs_def handleInputChange_def define_property_def
        handleSubmit_begin_def settled_def get_own_def)
  from results_and_error_exclusive [OF r] show ?thesis
    using r by simp
qed

text \<open>
  Claim C7. The result renderer returns nothing when there is no result, and after a
  successful response that carries the four Numbers the view shows all four of them and
  no error message.
\<close>

theorem results_displayed:
  assumes "200 \<le> st" and "st < 300"
      and "map_of ps ''optimal_x'' = Some (JNumber vx)"
      and "map_of ps ''optimal_y'' = Some (JNumber vy)"
      and "map_of ps ''optimal_z'' = Some (JNumber vz)"
      and "map_of ps ''max_damage'' = Some (JNumber vd)"
    shows "(\<not> truthy res \<longrightarrow> ResultsDisplay res = Inr Nothing)
         \<and> App (handleSubmit s (Reply st (JObject ps))) =
             Inr (Element ''div'' ''App''
                    [Element ''h1'' [] [Text ''Optimal Build Calculator''],
                     InputForm (inputs s),
                     Child JNull,
                     Element ''div'' []
                       [Element ''h2'' [] [Text ''Calculation Results''],
                        Element ''p'' [] [Text ''Optimal X: '', Child (JNumber vx)],
                        Element ''p'' [] [Text ''Optimal Y: '', Child (JNumber vy)],
                        Element ''p'' [] [Text ''Optimal Z: '', Child (JNumber vz)],
                        Element ''p'' [] [Text ''Max Damage: '', Child (JNumber vd)]]])
         \<and> shows_nothing (error_slot (handleSubmit s (Reply st (JObject ps))))
         \<and> \<not> shows_nothing (Child (JNumber vx)) \<and> \<not> shows_nothing (Child (JNumber vy))
         \<and> \<not> shows_nothing (Child (JNumber vz)) \<and> \<not> shows_nothing (Child (JNumber vd))"
proof -
  have "ResultsDisplay (JObject ps) =
          Inr (Element ''div'' []
                 [Element ''h2'' [] [Text ''Calculation Results''],
                  Element ''p'' [] [Text ''Optimal X: '', Child (JNumber vx)],
                  Element ''p'' [] [Text ''Optimal Y: '', Child (JNumber vy)],
                  Element ''p'' [] [Text ''Optimal Z: '', Child (JNumber vz)],
                  Element ''p'' [] [Text ''Max Damage: '', Child (JNumber vd)]])"
    using assms(3-6) by (simp add: ResultsDisplay_def get_own_def)
  with assms(1,2) show ?thesis
    by (simp add: handleSubmit_fulfilled App_def results_slot_def error_slot_def ResultsDisplay_def)
qed

theorem results_displayed_witness:
  "App (handleSubmit initial_view
          (Reply 200 (JObject [(''optimal_x'', JNumber (Finite 1)), (''optimal_y'', JNumber (Finite 2)),
                               (''optimal_z'', JNumber (Finite 3)), (''max_damage'', JNumber (Finite 4))]))) =
     Inr (Element ''div'' ''App''
            [Element ''h1'' [] [Text ''Optimal Build Calculator''],
             InputForm initial_inputs,
             Child JNull,
             Element ''div'' []
               [Element ''h2'' [] [Text ''Calculation Results''],
                Element ''p'' [] [Text ''Optimal X: '', Child (JNumber (Finite 1))],
                Element ''p'' [] [Text ''Optimal Y: '', Child (JNumber (Finite 2))],
                Element ''p'' [] [Text ''Optimal Z: '', Child (JNumber (Finite 3))],
                Element ''p'' [] [Text ''Max Damage: '', Child (JNumber (Finite 4))]]])
   \<and> ResultsDisplay JNull = Inr Nothing"
  using results_displayed [of 200 "[(''optimal_x'', JNumber (Finite 1)), (''optimal_y'', JNumber (Finite 2)),
                     (''optimal_z'', JNumber (Finite 3)), (''max_damage'', JNumber (Finite 4))]"
               "Finite 1" "Finite 2" "Finite 3" "Finite 4" JNull initial_view]
  by (simp add: initial_view_def)

text \<open>
  Claim C8. For an absent or empty dataset the heatmap renderer returns nothing. For a
  dataset of N samples it returns a plot with one trace of N points in which the
  samples' \<^verbatim>\<open>x\<close> and \<^verbatim>\<open>y\<close> are the axes and \<^verbatim>\<open>damage\<close> is the colour-mapped
  value; the samples' \<^verbatim>\<open>z\<close> is in the hover data only, so changing it changes
  nothing that is plotted.
\<close>

theorem heatmap_series:
  assumes "ds \<noteq> []"
  shows "DamageHeatmap None = None \<and> DamageHeatmap (Some []) = None
       \<and> (\<exists>p t. DamageHeatmap (Some ds) = Some p \<and> plot_data p = [t]
            \<and> trace_x t = map sample_x ds \<and> trace_y t = map sample_y ds
            \<and> trace_z t = map sample_damage ds
            \<and> customdata t = map (\<lambda>d. [sample_z d, sample_damage d]) ds
            \<and> length (trace_x t) = length ds \<and> length (trace_y t) = length ds
            \<and> length (trace_z t) = length ds \<and> length (customdata t) = length ds)
       \<and> (\<forall>g. map_option (\<lambda>p. map (\<lambda>t. (trace_x t, trace_y t, trace_z t)) (plot_data p))
                  (DamageHeatmap (Some (map (\<lambda>d. d\<lparr>sample_z := g d\<rparr>) ds)))
             = map_option (\<lambda>p. map (\<lambda>t. (trace_x t, trace_y t, trace_z t)) (plot_data p))
                  (DamageHeatmap (Some ds)))"
  using assms by (simp add: DamageHeatmap_def comp_def)

theorem heatmap_series_witness:
  "[\<lparr>sample_x = JNumber (Finite 1), sample_y = JNumber (Finite 2),
     sample_z = JNumber (Finite 3), sample_damage = JNumber (Finite 40)\<rparr>,
    \<lparr>sample_x = JNumber (Finite 5), sample_y = JNumber (Finite 6),
     sample_z = JNumber (Finite 7), sample_damage = JNumber (Finite 80)\<rparr>] \<noteq> []
 \<and> (\<exists>p t. DamageHeatmap (Some
        [\<lparr>sample_x = JNumber (Finite 1), sample_y = JNumber (Finite 2),
           sample_z = JNumber (Finite 3), sample_damage = JNumber (Finite 40)\<rparr>,
         \<lparr>sample_x = JNumber (Finite 5), sample_y = JNumber (Finite 6),
           sample_z = JNumber (Finite 7), sample_damage = JNumber (Finite 80)\<rparr>]) = Some p
      \<and> plot_data p = [t]
      \<and> trace_x t = [JNumber (Finite 1), JNumber (Finite 5)]
      \<and> trace_y t = [JNumber (Finite 2), JNumber (Finite 6)]
      \<and> trace_z t = [JNumber (Finite 40), JNumber (Finite 80)]
      \<and> customdata t = [[JNumber (Finite 3), JNumber (Finite 40)], [JNumber (Finite 7), JNumber (Finite 80)]])"
  using heatmap_series [of
        "[\<lparr>sample_x = JNumber (Finite 1), sample_y = JNumber (Finite 2),
           sample_z = JNumber (Finite 3), sample_damage = JNumber (Finite 40)\<rparr>,
         \<lparr>sample_x = JNumber (Finite 5), sample_y = JNumber (Finite 6),
           sample_z = JNumber (Finite 7), sample_damage = JNumber (Finite 80)\<rparr>]"]
  by simp blast

text \<open>
  Claim C9. For every state, name and raw value, the input mutation leaves the stored
  value of every other key as it was (present with the same value, or absent).
\<close>

theorem other_fields_unchanged:
  assumes "k \<noteq> name"
  shows "map_of (inputs (handleInputChange s name val)) k = map_of (inputs s) k"
  using assms by (simp add: handleInputChange_def map_of_define_property)

theorem other_fields_unchanged_witness:
  "''I'' \<noteq> ''K''
 \<and> map_of (inputs (handleInputChange initial_view ''K'' ''7'')) ''I'' = Some (JNumber (Finite 10))"
  using other_fields_unchanged [of "''I''" "''K''" initial_view "''7''"]
  by (simp add: initial_view_def initial_inputs_def)

text \<open>
  Claim C10. When a submission starts from a view in which the stored value of a field
  is a valid numeric prefix followed by characters that are not part of the number, such
  as \<^verbatim>\<open>5abc\<close>, the field of the body it posts is the Number value of that prefix, not
  a substituted 0; for every stored value the body holds 0 when \<^verbatim>\<open>parseFloat\<close> of it
  is not-a-number and holds the parsed Number otherwise. By
  \<open>parseFloat_string_decompose\<close> every string that is read as a number is such a prefix
  and tail (after its leading white space).
\<close>

theorem numeric_prefix_sent:
  assumes "step (s, None) Submit = Some (s', Some body)"
      and "map_of (inputs s) k = Some (JString (render l @ t))"
      and "k \<noteq> ''__proto__''"
      and "valid_literal l"
      and "\<not> continues l t"
    shows "map_of body k = Some (JNumber (MV l))
         \<and> MV l \<noteq> NaN
         \<and> (\<forall>k' v. map_of (inputs s) k' = Some v \<and> k' \<noteq> ''__proto__'' \<longrightarrow>
               map_of body k' =
                 Some (JNumber (if isNaN (parseFloat v) then Finite 0 else parseFloat v)))"
proof -
  from assms(1) have body: "body = dataToSend (inputs s)"
    by (auto simp: handleSubmit_begin_def)
  have sent: "map_of body k' =
                Some (JNumber (if isNaN (parseFloat v) then Finite 0 else parseFloat v))"
    if "map_of (inputs s) k' = Some v" and "k' \<noteq> ''__proto__''" for k' v
    using that map_of_in_keys [OF that(1)] unfolding body
    by (simp add: map_of_dataToSend get_own_map_of coerce_parsed del: set_map)
  have "parseFloat_string ([] @ render l @ t) = MV l"
    using assms(4,5) by (intro parseFloat_string_render) simp_all
  then have "parseFloat (JString (render l @ t)) = MV l"
    by simp
  with sent [OF assms(2,3)] MV_not_NaN [of l]
  have "map_of body k = Some (JNumber (MV l))"
    by (simp add: isNaN_def)
  with sent MV_not_NaN [of l] show ?thesis by blast
qed

theorem numeric_prefix_sent_witness:
  "valid_literal (Decimal NoSign (IntOnly ''5'') NoExp)
 \<and> \<not> continues (Decimal NoSign (IntOnly ''5'') NoExp) ''abc''
 \<and> \<not> continues (Decimal NoSign (IntDot ''1'' ''5'') NoExp) ''em''
 \<and> map_of (snd (handleSubmit_begin (initial_view\<lparr>inputs :=
        [(''K'', JString ''5abc''), (''I'', JString ''1.5em''),
         (''F'', JString ''1e309abc''), (''S'', JString ''-1e-400x'')]\<rparr>))) ''K''
     = Some (JNumber (Finite 5))
 \<and> map_of (snd (handleSubmit_begin (initial_view\<lparr>inputs :=
        [(''K'', JString ''5abc''), (''I'', JString ''1.5em''),
         (''F'', JString ''1e309abc''), (''S'', JString ''-1e-400x'')]\<rparr>))) ''I''
     = Some (JNumber (Finite (3 / 2)))
 \<and> map_of (snd (handleSubmit_begin (initial_view\<lparr>inputs :=
        [(''K'', JString ''5abc''), (''I'', JString ''1.5em''),
         (''F'', JString ''1e309abc''), (''S'', JString ''-1e-400x'')]\<rparr>))) ''F''
     = Some (JNumber PosInfinity)
 \<and> map_of (snd (handleSubmit_begin (initial_view\<lparr>inputs :=
        [(''K'', JString ''5abc''), (''I'', JString ''1.5em''),
         (''F'', JString ''1e309abc''), (''S'', JString ''-1e-400x'')]\<rparr>))) ''S''
     = Some (JNumber NegZero)"
proof -
  let ?s = "initial_view\<lparr>inputs :=
        [(''K'', JString ''5abc''), (''I'', JString ''1.5em''),
         (''F'', JString ''1e309abc''), (''S'', JString ''-1e-400x'')]\<rparr>"
  let ?body = "snd (handleSubmit_begin ?s)"
  have st: "step (?s, None) Submit = Some (fst (handleSubmit_begin ?s), Some ?body)"
    by (simp add: split_beta)
  have "map_of ?body ''K'' = Some (JNumber (MV (Decimal NoSign (IntOnly ''5'') NoExp)))"
    using numeric_prefix_sent [OF st, of "''K''" "Decimal NoSign (IntOnly ''5'') NoExp" "''abc''"]
    by (simp add: all_digits_def is_digit_def del: MV.simps(4))
  moreover
  have "map_of ?body ''I'' = Some (JNumber (MV (Decimal NoSign (IntDot ''1'' ''5'') NoExp)))"
    using numeric_prefix_sent [OF st, of "''I''" "Decimal NoSign (IntDot ''1'' ''5'') NoExp" "''em''"]
    by (simp add: all_digits_def is_digit_def del: MV.simps(4))
  moreover
  have "map_of ?body ''F'' =
          Some (JNumber (MV (Decimal NoSign (IntOnly ''1'') (Exp CHR ''e'' NoSign ''309''))))"
    using numeric_prefix_sent [OF st, of "''F''"
        "Decimal NoSign (IntOnly ''1'') (Exp CHR ''e'' NoSign ''309'')" "''abc''"]
    by (simp add: all_digits_def is_digit_def del: MV.simps(4))
  moreover
  have "map_of ?body ''S'' =
          Some (JNumber (MV (Decimal Minus (IntOnly ''1'') (Exp CHR ''e'' Minus ''400''))))"
    using numeric_prefix_sent [OF st, of "''S''"
        "Decimal Minus (IntOnly ''1'') (Exp CHR ''e'' Minus ''400'')" "''x''"]
    by (simp add: all_digits_def is_digit_def del: MV.simps(4))
  ultimately show ?thesis
    by (simp add: MV_examples MV_overflow_example MV_underflow_example all_digits_def is_digit_def
        del: MV.simps(4))
qed

end
